theory Spec2Isabelle
  imports
    Complex_Main
    "HOL-Library.Product_Lexorder"
    "HOL-Library.Sublist"
    "HOL-Library.Char_ord"
    "HOL-Library.List_Lexorder"
begin

section \<open>Numbers and tables\<close>

text \<open>
  A Python float is modelled as a real number or NaN: \<open>None\<close> is NaN, the no-data
  marker of every table. Rounding and the two infinities are outside the model; a
  division by zero, which NumPy answers with an infinity or NaN, is \<open>None\<close>.
  Comparisons with NaN are false, and arithmetic with NaN is NaN, also when the other
  factor is zero.
\<close>

type_synonym pyfloat = "real option"

datatype error = KeyError | ValueError

definition fsub :: "pyfloat \<Rightarrow> pyfloat \<Rightarrow> pyfloat" where
  "fsub x y = (case x of None \<Rightarrow> None
     | Some a \<Rightarrow> (case y of None \<Rightarrow> None | Some b \<Rightarrow> Some (a - b)))"

definition fadd :: "pyfloat \<Rightarrow> pyfloat \<Rightarrow> pyfloat" where
  "fadd x y = (case x of None \<Rightarrow> None
     | Some a \<Rightarrow> (case y of None \<Rightarrow> None | Some b \<Rightarrow> Some (a + b)))"

definition fscale :: "real \<Rightarrow> pyfloat \<Rightarrow> pyfloat" where
  "fscale k x = (case x of None \<Rightarrow> None | Some a \<Rightarrow> Some (k * a))"

definition fdiv :: "pyfloat \<Rightarrow> pyfloat \<Rightarrow> pyfloat" where
  "fdiv x y = (case x of None \<Rightarrow> None
     | Some a \<Rightarrow> (case y of None \<Rightarrow> None
         | Some b \<Rightarrow> if b = 0 then None else Some (a / b)))"

definition fle :: "pyfloat \<Rightarrow> pyfloat \<Rightarrow> bool" where
  "fle x y = (case x of None \<Rightarrow> False
     | Some a \<Rightarrow> (case y of None \<Rightarrow> False | Some b \<Rightarrow> a \<le> b))"

text \<open>
  A pandas DataFrame: the row labels, the column labels and the value at each pair of
  labels. Only the values at labels of the frame are part of it.
\<close>

record ('a, 'b, 'v) frame =
  index :: "'a list"
  columns :: "'b list"
  cell :: "'a \<Rightarrow> 'b \<Rightarrow> 'v"

definition loc :: "('a, 'b, 'v) frame \<Rightarrow> 'a \<Rightarrow> 'b \<Rightarrow> error + 'v" where
  "loc df a b =
     (if a \<in> set (index df) \<and> b \<in> set (columns df) then Inr (cell df a b) else Inl KeyError)"

definition const_frame :: "'v \<Rightarrow> 'a list \<Rightarrow> 'b list \<Rightarrow> ('a, 'b, 'v) frame" where
  "const_frame v idx cols = \<lparr>index = idx, columns = cols, cell = (\<lambda>a b. v)\<rparr>"

definition reindex ::
  "('a, 'b, pyfloat) frame \<Rightarrow> 'a list \<Rightarrow> 'b list \<Rightarrow> ('a, 'b, pyfloat) frame" where
  "reindex df idx cols =
     \<lparr>index = idx, columns = cols,
      cell = (\<lambda>a b. if a \<in> set (index df) \<and> b \<in> set (columns df) then cell df a b else None)\<rparr>"

definition fillna :: "real \<Rightarrow> ('a, 'b, pyfloat) frame \<Rightarrow> ('a, 'b, pyfloat) frame" where
  "fillna v df =
     \<lparr>index = index df, columns = columns df,
      cell = (\<lambda>a b. case cell df a b of None \<Rightarrow> Some v | Some x \<Rightarrow> Some x)\<rparr>"

definition frame_values :: "('a, 'b, 'v) frame \<Rightarrow> 'v list" where
  "frame_values df = concat (map (\<lambda>a. map (\<lambda>b. cell df a b) (columns df)) (index df))"

definition frame_size :: "('a, 'b, 'v) frame \<Rightarrow> nat" where
  "frame_size df = length (index df) * length (columns df)"

definition frame_sub ::
  "('a, 'b, pyfloat) frame \<Rightarrow> ('a, 'b, pyfloat) frame \<Rightarrow> ('a, 'b, pyfloat) frame" where
  "frame_sub x y =
     \<lparr>index = index x, columns = columns x, cell = (\<lambda>a b. fsub (cell x a b) (cell y a b))\<rparr>"

definition frame_scale :: "real \<Rightarrow> ('a, 'b, pyfloat) frame \<Rightarrow> ('a, 'b, pyfloat) frame" where
  "frame_scale k x =
     \<lparr>index = index x, columns = columns x, cell = (\<lambda>a b. fscale k (cell x a b))\<rparr>"

definition frame_div :: "('a, 'b, pyfloat) frame \<Rightarrow> pyfloat \<Rightarrow> ('a, 'b, pyfloat) frame" where
  "frame_div x d =
     \<lparr>index = index x, columns = columns x, cell = (\<lambda>a b. fdiv (cell x a b) d)\<rparr>"

text \<open>The non-NaN entries of a list of floats, in order.\<close>

definition finite_values :: "pyfloat list \<Rightarrow> real list" where
  "finite_values vs = List.map_filter (\<lambda>v. v) vs"

text \<open>\<open>np.nanmax\<close>: the maximum over the non-NaN entries, NaN when there is none.\<close>

definition nanmax :: "pyfloat list \<Rightarrow> pyfloat" where
  "nanmax vs = (case finite_values vs of [] \<Rightarrow> None | y # ys \<Rightarrow> Some (fold max ys y))"

section \<open>score.py\<close>

definition normalize_costs :: "('a, 'b, pyfloat) frame \<Rightarrow> real \<Rightarrow> ('a, 'b, pyfloat) frame" where
  "normalize_costs costs eps =
     (let cm = costs;
          maxc = (if frame_size cm > 0 then nanmax (frame_values cm) else Some 0)
      in if fle maxc (Some eps) then fillna 0 cm else frame_div cm maxc)"

text \<open>The default of the parameter \<open>eps\<close> of \<open>normalize_costs\<close>.\<close>

definition eps_default :: real where
  "eps_default = 1 / 10 ^ 9"

definition compute_risk_adjusted_score ::
  "('a, 'b, pyfloat) frame \<Rightarrow> ('a, 'b, pyfloat) frame option \<Rightarrow> ('a, 'b, pyfloat) frame option
     \<Rightarrow> real \<Rightarrow> real \<Rightarrow> bool \<Rightarrow> ('a, 'b, pyfloat) frame" where
  "compute_risk_adjusted_score cell_means uncertainty cost kappa rho normalize_costs_flag =
     (let means = cell_means;
          unc = (case uncertainty of
                   None \<Rightarrow> const_frame (Some 0) (index means) (columns means)
                 | Some u \<Rightarrow> fillna 0 (reindex u (index means) (columns means)));
          cost_norm = (case cost of
                   None \<Rightarrow> const_frame (Some 0) (index means) (columns means)
                 | Some c \<Rightarrow>
                     (let c' = reindex c (index means) (columns means)
                      in if normalize_costs_flag then normalize_costs c' eps_default else c'))
      in frame_sub (frame_sub means (frame_scale kappa unc)) (frame_scale rho cost_norm))"

text \<open>The tables of the unit tests of the scorer.\<close>

definition cm22 :: "(string, string, pyfloat) frame" where
  "cm22 = \<lparr>index = [''A1'', ''A2''], columns = [''B1'', ''B2''],
     cell = (\<lambda>a b. if a = ''A1'' then (if b = ''B1'' then Some 1 else Some 2)
                    else (if b = ''B1'' then Some 3 else Some 4))\<rparr>"

definition unc22 :: "(string, string, pyfloat) frame" where
  "unc22 = \<lparr>index = [''A1'', ''A2''], columns = [''B1'', ''B2''],
     cell = (\<lambda>a b. if a = ''A1'' then (if b = ''B1'' then Some (1 / 10) else Some (2 / 10))
                    else (if b = ''B1'' then Some (3 / 10) else Some (4 / 10)))\<rparr>"

definition cost22 :: "(string, string, pyfloat) frame" where
  "cost22 = \<lparr>index = [''A1'', ''A2''], columns = [''B1'', ''B2''],
     cell = (\<lambda>a b. if a = ''A1'' then (if b = ''B1'' then Some 10 else Some 0)
                    else (if b = ''B1'' then Some 5 else Some 1))\<rparr>"

text \<open>A table over the rows of \<open>cm22\<close> with the single column B1.\<close>

definition col_b1 :: "real \<Rightarrow> real \<Rightarrow> (string, string, pyfloat) frame" where
  "col_b1 x y = \<lparr>index = [''A1'', ''A2''], columns = [''B1''],
     cell = (\<lambda>a b. if a = ''A1'' then Some x else Some y)\<rparr>"

text \<open>A one-cell cost table.\<close>

definition cost11 :: "real \<Rightarrow> (string, string, pyfloat) frame" where
  "cost11 x = \<lparr>index = [''A1''], columns = [''B1''], cell = (\<lambda>a b. Some x)\<rparr>"

section \<open>optimizer.py\<close>

text \<open>
  A budget is a real ceiling or \<open>np.inf\<close>, the default. A cost table holds floats,
  so a cost can be NaN, as it is for an entry left empty in the file the table is read
  from. The tests \<open>x <= budget\<close> and \<open>x > budget\<close> are both false when \<open>x\<close> is NaN.
\<close>

datatype budget = Bounded real | Unbounded

definition fits :: "pyfloat \<Rightarrow> budget \<Rightarrow> bool" where
  "fits x bud =
     (case x of None \<Rightarrow> False
      | Some r \<Rightarrow> (case bud of Bounded b \<Rightarrow> r \<le> b | Unbounded \<Rightarrow> True))"

definition exceeds :: "pyfloat \<Rightarrow> budget \<Rightarrow> bool" where
  "exceeds x bud =
     (case x of None \<Rightarrow> False
      | Some r \<Rightarrow> (case bud of Bounded b \<Rightarrow> b < r | Unbounded \<Rightarrow> False))"

text \<open>
  \<open>np.nan_to_num(x, -np.inf)\<close>: the second positional parameter of \<open>nan_to_num\<close> is
  \<open>copy\<close>, so NaN becomes the default 0.0.
\<close>

definition nan_to_num :: "pyfloat \<Rightarrow> real" where
  "nan_to_num v = (case v of None \<Rightarrow> 0 | Some x \<Rightarrow> x)"

text \<open>\<open>if cost is None: cost = pd.DataFrame(1.0, index=score.index, columns=score.columns)\<close>\<close>

definition given_cost ::
  "('a, 'b, pyfloat) frame \<Rightarrow> ('a, 'b, pyfloat) frame option \<Rightarrow> ('a, 'b, pyfloat) frame" where
  "given_cost score cost =
     (case cost of None \<Rightarrow> const_frame (Some 1) (index score) (columns score) | Some c \<Rightarrow> c)"

subsection \<open>\<open>greedy_select_under_budget\<close>\<close>

text \<open>The cost read for a cell: the table's entry when both labels are in it, else 1.0.\<close>

definition cost_or_one :: "('a, 'b, pyfloat) frame \<Rightarrow> 'a \<times> 'b \<Rightarrow> pyfloat" where
  "cost_or_one cost ab =
     (case ab of (a, b) \<Rightarrow>
        if a \<in> set (index cost) \<and> b \<in> set (columns cost) then cell cost a b else Some 1)"

definition greedy_flat ::
  "('a, 'b, pyfloat) frame \<Rightarrow> ('a, 'b, pyfloat) frame \<Rightarrow> ('a \<times> 'b \<times> pyfloat \<times> pyfloat) list" where
  "greedy_flat score cost =
     map (\<lambda>(a, b). (a, b, cell score a b, cost_or_one cost (a, b)))
       (List.product (index score) (columns score))"

text \<open>The sort key \<open>(-np.nan_to_num(x[2], -np.inf), x[3])\<close>: the cost in it can be NaN.\<close>

definition greedy_key :: "'a \<times> 'b \<times> pyfloat \<times> pyfloat \<Rightarrow> real \<times> pyfloat" where
  "greedy_key x = (case x of (a, b, v, c) \<Rightarrow> (- nan_to_num v, c))"

text \<open>
  \<open>sorted\<close> compares keys with \<open><\<close>. On two such tuples \<open><\<close> compares the first
  components when they differ and the second components otherwise, and a comparison
  with NaN is false.
\<close>

definition key_lt :: "real \<times> pyfloat \<Rightarrow> real \<times> pyfloat \<Rightarrow> bool" where
  "key_lt k k' =
     (case k of (s, c) \<Rightarrow> case k' of (s', c') \<Rightarrow>
        if s \<noteq> s' then s < s'
        else (case c of None \<Rightarrow> False
              | Some x \<Rightarrow> (case c' of None \<Rightarrow> False | Some y \<Rightarrow> x < y)))"

text \<open>A list of keys in which no key is less than the key before it.\<close>

fun one_run :: "(real \<times> pyfloat) list \<Rightarrow> bool" where
  "one_run [] = True"
| "one_run [k] = True"
| "one_run (k # k' # ks) = (\<not> key_lt k' k \<and> one_run (k' # ks))"

text \<open>
  \<open>sorted(xs, key=...)\<close> is a stable merge sort that looks at the keys through \<open><\<close>
  only. On keys without NaN, which \<open><\<close> orders, the result is in ascending order of
  keys, elements of equal key in their original order. A list that is one run, no key
  less than the key before it, is returned as it is, whatever its keys. On any
  other list with a NaN among the keys the result depends on which pairs the merge sort
  happens to compare; it is left open as the parameter \<open>sort_impl\<close>.
\<close>

definition py_sorted ::
  "('x list \<Rightarrow> 'x list) \<Rightarrow> ('x \<Rightarrow> real \<times> pyfloat) \<Rightarrow> 'x list \<Rightarrow> 'x list" where
  "py_sorted sort_impl key xs =
     (if list_all (\<lambda>x. snd (key x) \<noteq> None) xs
      then sort_key (\<lambda>x. (fst (key x), nan_to_num (snd (key x)))) xs
      else if one_run (map key xs) then xs
      else sort_impl xs)"

definition set_true :: "('a, 'b, bool) frame \<Rightarrow> 'a \<Rightarrow> 'b \<Rightarrow> ('a, 'b, bool) frame" where
  "set_true sel_mask a b = sel_mask\<lparr>cell := (\<lambda>a' b'. (a' = a \<and> b' = b) \<or> cell sel_mask a' b')\<rparr>"

text \<open>
  The scan over the sorted cells; the state is (selected, total_cost, sel_mask). The
  test is \<open>total_cost + c <= budget\<close>, false when the cost \<open>c\<close> is NaN.
\<close>

fun greedy_loop ::
  "budget \<Rightarrow> ('a \<times> 'b \<times> pyfloat \<times> pyfloat) list
     \<Rightarrow> ('a \<times> 'b) list \<times> pyfloat \<times> ('a, 'b, bool) frame
     \<Rightarrow> ('a \<times> 'b) list \<times> pyfloat \<times> ('a, 'b, bool) frame" where
  "greedy_loop bud [] st = st"
| "greedy_loop bud ((a, b, val, c) # rest) (selected, total_cost, sel_mask) =
     (case val of
        None \<Rightarrow> greedy_loop bud rest (selected, total_cost, sel_mask)
      | Some v \<Rightarrow>
          if fits (fadd total_cost c) bud
          then greedy_loop bud rest (selected @ [(a, b)], fadd total_cost c, set_true sel_mask a b)
          else greedy_loop bud rest (selected, total_cost, sel_mask))"

definition greedy_run ::
  "(('a \<times> 'b \<times> pyfloat \<times> pyfloat) list \<Rightarrow> ('a \<times> 'b \<times> pyfloat \<times> pyfloat) list)
     \<Rightarrow> ('a, 'b, pyfloat) frame \<Rightarrow> ('a, 'b, pyfloat) frame option \<Rightarrow> budget
     \<Rightarrow> ('a \<times> 'b) list \<times> pyfloat \<times> ('a, 'b, bool) frame" where
  "greedy_run sort_impl score cost bud =
     (let cost' = given_cost score cost;
          flat = greedy_flat score cost';
          flat_sorted = py_sorted sort_impl greedy_key flat
      in greedy_loop bud flat_sorted
           ([], Some 0, const_frame False (index score) (columns score)))"

text \<open>The call with \<open>return_selected_mask=False\<close>, the default.\<close>

definition greedy_select_under_budget ::
  "(('a \<times> 'b \<times> pyfloat \<times> pyfloat) list \<Rightarrow> ('a \<times> 'b \<times> pyfloat \<times> pyfloat) list)
     \<Rightarrow> ('a, 'b, pyfloat) frame \<Rightarrow> ('a, 'b, pyfloat) frame option \<Rightarrow> budget
     \<Rightarrow> ('a \<times> 'b) list \<times> pyfloat" where
  "greedy_select_under_budget sort_impl score cost bud =
     (case greedy_run sort_impl score cost bud of
        (selected, total_cost, sel_mask) \<Rightarrow> (selected, total_cost))"

text \<open>The call with \<open>return_selected_mask=True\<close>.\<close>

definition greedy_select_with_mask ::
  "(('a \<times> 'b \<times> pyfloat \<times> pyfloat) list \<Rightarrow> ('a \<times> 'b \<times> pyfloat \<times> pyfloat) list)
     \<Rightarrow> ('a, 'b, pyfloat) frame \<Rightarrow> ('a, 'b, pyfloat) frame option \<Rightarrow> budget
     \<Rightarrow> ('a \<times> 'b) list \<times> pyfloat \<times> ('a, 'b, bool) frame" where
  "greedy_select_with_mask sort_impl score cost bud = greedy_run sort_impl score cost bud"

text \<open>
  For the statements about the selectors. The cost of a cell as the caller gave it: 1
  when the cost table is omitted or lacks a label of the cell, the entry of the table
  otherwise. The total cost and the total score of a list of cells, a NaN counted as 0.
  The cells that have a score, and the cost tables with a number as the cost of every
  cell of the score table.
\<close>

definition cost_at :: "('a, 'b, pyfloat) frame option \<Rightarrow> 'a \<times> 'b \<Rightarrow> pyfloat" where
  "cost_at cost ab =
     (case cost of None \<Rightarrow> Some 1
      | Some c \<Rightarrow>
          if fst ab \<in> set (index c) \<and> snd ab \<in> set (columns c) then cell c (fst ab) (snd ab)
          else Some 1)"

definition total_cost :: "('a, 'b, pyfloat) frame option \<Rightarrow> ('a \<times> 'b) list \<Rightarrow> real" where
  "total_cost cost sel = sum_list (map (\<lambda>ab. nan_to_num (cost_at cost ab)) sel)"

definition total_score :: "('a, 'b, pyfloat) frame \<Rightarrow> ('a \<times> 'b) list \<Rightarrow> real" where
  "total_score score sel = sum_list (map (\<lambda>ab. nan_to_num (cell score (fst ab) (snd ab))) sel)"

definition has_score :: "('a, 'b, pyfloat) frame \<Rightarrow> 'a \<times> 'b \<Rightarrow> bool" where
  "has_score score ab = (cell score (fst ab) (snd ab) \<noteq> None)"

definition numeric_costs ::
  "('a, 'b, pyfloat) frame \<Rightarrow> ('a, 'b, pyfloat) frame option \<Rightarrow> bool" where
  "numeric_costs score cost =
     list_all (\<lambda>ab. cost_at cost ab \<noteq> None) (List.product (index score) (columns score))"

text \<open>
  The parts of a flattened cell; the cells that have a score, each with its score and
  the cost the caller gave it, by descending score and at equal score by ascending cost;
  and the loop run on a list of cells from the empty selection, with the selected-cell
  table left out.
\<close>

definition g_cell :: "'a \<times> 'b \<times> pyfloat \<times> pyfloat \<Rightarrow> 'a \<times> 'b" where
  "g_cell x = (fst x, fst (snd x))"

definition g_score :: "'a \<times> 'b \<times> pyfloat \<times> pyfloat \<Rightarrow> pyfloat" where
  "g_score x = fst (snd (snd x))"

definition g_cost :: "'a \<times> 'b \<times> pyfloat \<times> pyfloat \<Rightarrow> pyfloat" where
  "g_cost x = snd (snd (snd x))"

definition scored :: "'a \<times> 'b \<times> pyfloat \<times> pyfloat \<Rightarrow> bool" where
  "scored x = (g_score x \<noteq> None)"

definition scored_cells ::
  "('a, 'b, pyfloat) frame \<Rightarrow> ('a, 'b, pyfloat) frame option
     \<Rightarrow> ('a \<times> 'b \<times> pyfloat \<times> pyfloat) list" where
  "scored_cells score cost =
     map (\<lambda>ab. (fst ab, snd ab, cell score (fst ab) (snd ab), cost_at cost ab))
       (filter (has_score score) (List.product (index score) (columns score)))"

definition greedy_order ::
  "('a, 'b, pyfloat) frame \<Rightarrow> ('a, 'b, pyfloat) frame option
     \<Rightarrow> ('a \<times> 'b \<times> pyfloat \<times> pyfloat) list" where
  "greedy_order score cost =
     sort_key (\<lambda>x. (- nan_to_num (g_score x), nan_to_num (g_cost x))) (scored_cells score cost)"

definition greedy_scan ::
  "budget \<Rightarrow> ('a \<times> 'b \<times> pyfloat \<times> pyfloat) list \<Rightarrow> ('a \<times> 'b) list \<times> pyfloat" where
  "greedy_scan bud xs =
     (case greedy_loop bud xs ([], Some 0, const_frame False [] []) of
        (sel, tot, m) \<Rightarrow> (sel, tot))"

subsection \<open>\<open>exhaustive_best_k\<close>\<close>

text \<open>
  \<open>itertools.combinations\<close>: the sublists of length \<open>r\<close>, in lexicographic order of
  positions.
\<close>

fun combinations :: "'x list \<Rightarrow> nat \<Rightarrow> 'x list list" where
  "combinations xs 0 = [[]]"
| "combinations [] (Suc r) = []"
| "combinations (x # xs) (Suc r) = map ((#) x) (combinations xs r) @ combinations xs (Suc r)"

text \<open>
  The candidates: the cells that are not NaN, row by row, each with its score and cost.
  A cost table that is given is read with \<open>.loc\<close>, which raises on a label it lacks.
\<close>

fun flatten ::
  "('a, 'b, pyfloat) frame \<Rightarrow> ('a, 'b, pyfloat) frame option \<Rightarrow> ('a \<times> 'b) list
     \<Rightarrow> error + (('a \<times> 'b) \<times> real \<times> pyfloat) list" where
  "flatten score cost [] = Inr []"
| "flatten score cost ((a, b) # rest) =
     (case cell score a b of
        None \<Rightarrow> flatten score cost rest
      | Some v \<Rightarrow>
          (case (case cost of None \<Rightarrow> Inr (Some 1) | Some c \<Rightarrow> loc c a b) of
             Inl e \<Rightarrow> Inl e
           | Inr c \<Rightarrow>
               (case flatten score cost rest of
                  Inl e \<Rightarrow> Inl e
                | Inr xs \<Rightarrow> Inr (((a, b), v, c) # xs))))"

definition comb_sel :: "(('a \<times> 'b) \<times> real \<times> pyfloat) list \<Rightarrow> ('a \<times> 'b) list" where
  "comb_sel comb = map fst comb"

definition comb_ssum :: "(('a \<times> 'b) \<times> real \<times> pyfloat) list \<Rightarrow> real" where
  "comb_ssum comb = sum_list (map (\<lambda>c. fst (snd c)) comb)"

text \<open>\<open>sum(c[2] for c in comb)\<close>: from 0, the costs added one after the other; NaN stays.\<close>

definition comb_csum :: "(('a \<times> 'b) \<times> real \<times> pyfloat) list \<Rightarrow> pyfloat" where
  "comb_csum comb = foldl fadd (Some 0) (map (\<lambda>c. snd (snd c)) comb)"

text \<open>\<open>ssum > best_score\<close>, where the best score \<open>None\<close> is the initial \<open>-np.inf\<close>.\<close>

definition beats :: "real \<Rightarrow> real option \<Rightarrow> bool" where
  "beats s best = (case best of None \<Rightarrow> True | Some b \<Rightarrow> b < s)"

fun exhaustive_loop ::
  "budget \<Rightarrow> (('a \<times> 'b) \<times> real \<times> pyfloat) list list \<Rightarrow> real option \<times> ('a \<times> 'b) list
     \<Rightarrow> real option \<times> ('a \<times> 'b) list" where
  "exhaustive_loop bud [] st = st"
| "exhaustive_loop bud (comb # rest) (best_score, best_sel) =
     (if fits (comb_csum comb) bud \<and> beats (comb_ssum comb) best_score
      then exhaustive_loop bud rest (Some (comb_ssum comb), comb_sel comb)
      else exhaustive_loop bud rest (best_score, best_sel))"

text \<open>
  The candidates are collected before \<open>itertools.combinations\<close> is called, which raises
  ValueError on a negative \<open>r\<close>.
\<close>

definition exhaustive_best_k ::
  "('a, 'b, pyfloat) frame \<Rightarrow> ('a, 'b, pyfloat) frame option \<Rightarrow> int \<Rightarrow> budget
     \<Rightarrow> error + ('a \<times> 'b) list \<times> real" where
  "exhaustive_best_k score cost k bud =
     (case flatten score cost (List.product (index score) (columns score)) of
        Inl e \<Rightarrow> Inl e
      | Inr flat \<Rightarrow>
          if k < 0 then Inl ValueError
          else (case exhaustive_loop bud (combinations flat (nat k)) (None, []) of
                  (None, best_sel) \<Rightarrow> Inr ([], 0)
                | (Some best_score, best_sel) \<Rightarrow> Inr (best_sel, best_score)))"

text \<open>
  For the statements about the search. The cost read for a cell of the candidates; the
  candidates in closed form, for a cost table that has every label of the score table;
  and the combination that the loop keeps: the first one, in the order of enumeration,
  whose total score is greatest among those within the budget.
\<close>

definition cost_of :: "('a, 'b, pyfloat) frame option \<Rightarrow> 'a \<times> 'b \<Rightarrow> pyfloat" where
  "cost_of cost ab = (case cost of None \<Rightarrow> Some 1 | Some c \<Rightarrow> cell c (fst ab) (snd ab))"

definition candidate_list ::
  "('a, 'b, pyfloat) frame \<Rightarrow> ('a, 'b, pyfloat) frame option
     \<Rightarrow> (('a \<times> 'b) \<times> real \<times> pyfloat) list" where
  "candidate_list score cost =
     map (\<lambda>ab. (ab, nan_to_num (cell score (fst ab) (snd ab)), cost_of cost ab))
       (filter (has_score score) (List.product (index score) (columns score)))"

definition aligned :: "('a, 'b, pyfloat) frame \<Rightarrow> ('a, 'b, pyfloat) frame option \<Rightarrow> bool" where
  "aligned score cost =
     (case cost of None \<Rightarrow> True
      | Some c \<Rightarrow> set (index score) \<subseteq> set (index c) \<and> set (columns score) \<subseteq> set (columns c))"

definition first_best :: "budget \<Rightarrow> (('a \<times> 'b) \<times> real \<times> pyfloat) list list \<Rightarrow> nat \<Rightarrow> bool" where
  "first_best bud cs i \<longleftrightarrow>
     i < length cs \<and> fits (comb_csum (cs ! i)) bud \<and>
     (\<forall>j < length cs. fits (comb_csum (cs ! j)) bud \<longrightarrow> comb_ssum (cs ! j) \<le> comb_ssum (cs ! i)) \<and>
     (\<forall>j < i. fits (comb_csum (cs ! j)) bud \<longrightarrow> comb_ssum (cs ! j) < comb_ssum (cs ! i))"

subsection \<open>\<open>beam_search_pair_selection\<close>\<close>

text \<open>A beam entry: (selected list, total score, total cost). The total cost can be NaN.\<close>

type_synonym ('a, 'b) entry = "('a \<times> 'b) list \<times> real \<times> pyfloat"

definition entry_sel :: "('a, 'b) entry \<Rightarrow> ('a \<times> 'b) list" where
  "entry_sel e = fst e"

definition entry_score :: "('a, 'b) entry \<Rightarrow> real" where
  "entry_score e = fst (snd e)"

definition entry_cost :: "('a, 'b) entry \<Rightarrow> pyfloat" where
  "entry_cost e = snd (snd e)"

text \<open>
  The inner loop over the candidates for one beam entry. A candidate is passed over
  when it is in the selection or when \<open>new_cost > budget\<close>, which is false when
  \<open>new_cost\<close> is NaN.
\<close>

definition expand ::
  "budget \<Rightarrow> (('a \<times> 'b) \<times> real \<times> pyfloat) list \<Rightarrow> ('a, 'b) entry \<Rightarrow> ('a, 'b) entry list" where
  "expand bud candidates e =
     (case e of (sel, ssum, csum) \<Rightarrow>
        map (\<lambda>(cand, val, c). (sel @ [cand], ssum + val, fadd csum c))
          (filter (\<lambda>(cand, val, c). cand \<notin> set sel \<and> \<not> exceeds (fadd csum c) bud) candidates))"

definition generation ::
  "budget \<Rightarrow> (('a \<times> 'b) \<times> real \<times> pyfloat) list \<Rightarrow> ('a, 'b) entry list \<Rightarrow> ('a, 'b) entry list" where
  "generation bud candidates beam = concat (map (expand bud candidates) beam)"

text \<open>\<open>if new_sum > best[1]: best = ...\<close>, for the entries in the order they are made.\<close>

definition track :: "('a, 'b) entry \<Rightarrow> ('a, 'b) entry \<Rightarrow> ('a, 'b) entry" where
  "track e best = (if entry_score best < entry_score e then e else best)"

text \<open>The slice \<open>xs[:n]\<close>; a negative \<open>n\<close> counts from the end.\<close>

definition py_take :: "int \<Rightarrow> 'x list \<Rightarrow> 'x list" where
  "py_take n xs = (if 0 \<le> n then take (nat n) xs else take (nat (int (length xs) + n)) xs)"

text \<open>The keys of this sort are total scores, which are numbers.\<close>

definition truncate_beam :: "int \<Rightarrow> ('a, 'b) entry list \<Rightarrow> ('a, 'b) entry list" where
  "truncate_beam beam_width new_beam = py_take beam_width (sort_key (\<lambda>e. - entry_score e) new_beam)"

text \<open>The loop \<open>for _iter in range(int(max_iters))\<close>; its state is (beam, best).\<close>

fun beam_loop ::
  "nat \<Rightarrow> budget \<Rightarrow> int \<Rightarrow> (('a \<times> 'b) \<times> real \<times> pyfloat) list \<Rightarrow> ('a, 'b) entry list
     \<Rightarrow> ('a, 'b) entry \<Rightarrow> ('a, 'b) entry" where
  "beam_loop 0 bud beam_width candidates beam best = best"
| "beam_loop (Suc n) bud beam_width candidates beam best =
     (let new_beam = generation bud candidates beam;
          best' = fold track new_beam best
      in if new_beam = [] then best'
         else beam_loop n bud beam_width candidates (truncate_beam beam_width new_beam) best')"

text \<open>
  The candidates are sorted by their scores, which are numbers. The fallback is the
  greedy selector, with the sort that it makes.
\<close>

definition beam_search_pair_selection ::
  "(('a \<times> 'b \<times> pyfloat \<times> pyfloat) list \<Rightarrow> ('a \<times> 'b \<times> pyfloat \<times> pyfloat) list)
     \<Rightarrow> ('a, 'b, pyfloat) frame \<Rightarrow> ('a, 'b, pyfloat) frame option \<Rightarrow> budget \<Rightarrow> int \<Rightarrow> int option
     \<Rightarrow> error + ('a \<times> 'b) list \<times> pyfloat" where
  "beam_search_pair_selection sort_impl score cost bud beam_width max_iters =
     (let cost' = given_cost score cost
      in case flatten score (Some cost') (List.product (index score) (columns score)) of
           Inl e \<Rightarrow> Inl e
         | Inr flat \<Rightarrow>
             (let candidates = sort_key (\<lambda>x. - fst (snd x)) flat;
                  total_cells = length candidates;
                  iters = (case max_iters of None \<Rightarrow> total_cells | Some m \<Rightarrow> nat m);
                  best = beam_loop iters bud beam_width candidates [([], 0, Some 0)] ([], 0, Some 0)
              in if entry_score best \<le> 0
                 then Inr (greedy_select_under_budget sort_impl score (Some cost') bud)
                 else Inr (entry_sel best, Some (entry_score best))))"

text \<open>
  For the statements about the search: the generations (the successive values of
  \<open>new_beam\<close>) as a list, following the loop without the tracking of the best entry;
  the sorted candidates, the number of iterations and the generations of a call; all
  entries made in a call, in the order they are made; and the entry that the tracking
  keeps, the first one of greatest score.
\<close>

fun beam_generations ::
  "nat \<Rightarrow> budget \<Rightarrow> int \<Rightarrow> (('a \<times> 'b) \<times> real \<times> pyfloat) list \<Rightarrow> ('a, 'b) entry list
     \<Rightarrow> ('a, 'b) entry list list" where
  "beam_generations 0 bud beam_width candidates beam = []"
| "beam_generations (Suc n) bud beam_width candidates beam =
     (let new_beam = generation bud candidates beam
      in if new_beam = [] then []
         else new_beam # beam_generations n bud beam_width candidates (truncate_beam beam_width new_beam))"

definition beam_candidates ::
  "('a, 'b, pyfloat) frame \<Rightarrow> ('a, 'b, pyfloat) frame option
     \<Rightarrow> (('a \<times> 'b) \<times> real \<times> pyfloat) list" where
  "beam_candidates score cost =
     sort_key (\<lambda>x. - fst (snd x)) (candidate_list score (Some (given_cost score cost)))"

definition beam_iters :: "int option \<Rightarrow> nat \<Rightarrow> nat" where
  "beam_iters max_iters total_cells = (case max_iters of None \<Rightarrow> total_cells | Some m \<Rightarrow> nat m)"

definition search_generations ::
  "('a, 'b, pyfloat) frame \<Rightarrow> ('a, 'b, pyfloat) frame option \<Rightarrow> budget \<Rightarrow> int \<Rightarrow> int option
     \<Rightarrow> ('a, 'b) entry list list" where
  "search_generations score cost bud beam_width max_iters =
     beam_generations (beam_iters max_iters (length (beam_candidates score cost)))
       bud beam_width (beam_candidates score cost) [([], 0, Some 0)]"

definition all_entries ::
  "('a, 'b, pyfloat) frame \<Rightarrow> ('a, 'b, pyfloat) frame option \<Rightarrow> budget \<Rightarrow> int \<Rightarrow> int option
     \<Rightarrow> ('a, 'b) entry list" where
  "all_entries score cost bud beam_width max_iters =
     concat (search_generations score cost bud beam_width max_iters)"

definition first_top :: "('a, 'b) entry list \<Rightarrow> nat \<Rightarrow> bool" where
  "first_top es i \<longleftrightarrow>
     i < length es \<and>
     (\<forall>j < length es. entry_score (es ! j) \<le> entry_score (es ! i)) \<and>
     (\<forall>j < i. entry_score (es ! j) < entry_score (es ! i))"

text \<open>The beam entries whose score is the total score of their cells.\<close>

definition consistent :: "('a, 'b, pyfloat) frame \<Rightarrow> ('a, 'b) entry \<Rightarrow> bool" where
  "consistent score e \<longleftrightarrow> entry_score e = total_score score (entry_sel e)"

subsection \<open>Tables\<close>

text \<open>The tables of the unit tests of the selectors: \<open>[[10, 8], [6, 4], [2, 1]]\<close>, unit costs.\<close>

definition score32 :: "(string, string, pyfloat) frame" where
  "score32 = \<lparr>index = [''A1'', ''A2'', ''A3''], columns = [''B1'', ''B2''],
     cell = (\<lambda>a b. if a = ''A1'' then (if b = ''B1'' then Some 10 else Some 8)
                    else if a = ''A2'' then (if b = ''B1'' then Some 6 else Some 4)
                    else (if b = ''B1'' then Some 2 else Some 1))\<rparr>"

definition cost32 :: "(string, string, pyfloat) frame" where
  "cost32 = \<lparr>index = [''A1'', ''A2'', ''A3''], columns = [''B1'', ''B2''],
     cell = (\<lambda>a b. Some 1)\<rparr>"

text \<open>The scores \<open>[[5, 5], [3, 1]]\<close> with the costs \<open>[[2, 1], [4, 1]]\<close>.\<close>

definition score22 :: "(string, string, pyfloat) frame" where
  "score22 = \<lparr>index = [''A1'', ''A2''], columns = [''B1'', ''B2''],
     cell = (\<lambda>a b. if a = ''A1'' then Some 5 else if b = ''B1'' then Some 3 else Some 1)\<rparr>"

definition cost22t :: "(string, string, pyfloat) frame" where
  "cost22t = \<lparr>index = [''A1'', ''A2''], columns = [''B1'', ''B2''],
     cell = (\<lambda>a b. if b = ''B2'' then Some 1 else if a = ''A1'' then Some 2 else Some 4)\<rparr>"

text \<open>The scores \<open>[[5, 5, 5]]\<close> with the costs \<open>[[3, c, 1]]\<close>.\<close>

definition score13 :: "(string, string, pyfloat) frame" where
  "score13 = \<lparr>index = [''A1''], columns = [''B1'', ''B2'', ''B3''], cell = (\<lambda>a b. Some 5)\<rparr>"

definition cost13 :: "pyfloat \<Rightarrow> (string, string, pyfloat) frame" where
  "cost13 c = \<lparr>index = [''A1''], columns = [''B1'', ''B2'', ''B3''],
     cell = (\<lambda>a b. if b = ''B1'' then Some 3 else if b = ''B2'' then c else Some 1)\<rparr>"

text \<open>The scores \<open>[[5, 3]]\<close> with the costs \<open>[[c, 1]]\<close>, and the scores \<open>[[5, -1]]\<close> and \<open>[[-1]]\<close>.\<close>

definition score53 :: "(string, string, pyfloat) frame" where
  "score53 = \<lparr>index = [''A1''], columns = [''B1'', ''B2''],
     cell = (\<lambda>a b. if b = ''B1'' then Some 5 else Some 3)\<rparr>"

definition cost12 :: "pyfloat \<Rightarrow> (string, string, pyfloat) frame" where
  "cost12 c = \<lparr>index = [''A1''], columns = [''B1'', ''B2''],
     cell = (\<lambda>a b. if b = ''B1'' then c else Some 1)\<rparr>"

definition score12 :: "(string, string, pyfloat) frame" where
  "score12 = \<lparr>index = [''A1''], columns = [''B1'', ''B2''],
     cell = (\<lambda>a b. if b = ''B1'' then Some 5 else Some (- 1))\<rparr>"

definition score11 :: "(string, string, pyfloat) frame" where
  "score11 = \<lparr>index = [''A1''], columns = [''B1''], cell = (\<lambda>a b. Some (- 1))\<rparr>"
section \<open>effects.py and pci.py: the interaction matrix\<close>

text \<open>
  \<open>np.nanmean\<close>, and the mean of pandas that skips NaN: the mean of the entries that
  are not NaN, NaN when there is none.
\<close>

definition nanmean :: "pyfloat list \<Rightarrow> pyfloat" where
  "nanmean vs = (case finite_values vs of [] \<Rightarrow> None
     | y # ys \<Rightarrow> Some (sum_list (y # ys) / real (length (y # ys))))"








section \<open>bootstrap.py\<close>

text \<open>
  NumPy's generators are outside the repository. A \<open>Generator\<close> is represented by the
  sequence of raw draws it will produce; \<open>integers(0, n, size)\<close> reduces the next
  \<open>size\<close> draws into the range below \<open>n\<close> and moves on. What \<open>np.random.default_rng\<close>
  returns for a seed, or for no seed, is a parameter of the model.
\<close>

type_synonym generator = "nat \<Rightarrow> nat"

definition integers :: "nat \<Rightarrow> nat \<Rightarrow> generator \<Rightarrow> nat list \<times> generator" where
  "integers n sz g = (map (\<lambda>k. g k mod n) [0..<sz], (\<lambda>k. g (k + sz)))"

definition rng_from_seed :: "(int option \<Rightarrow> generator) \<Rightarrow> int option \<Rightarrow> generator" where
  "rng_from_seed default_rng seed =
     (case seed of None \<Rightarrow> default_rng None | Some s \<Rightarrow> default_rng (Some s))"

text \<open>
  A data frame of observations: one row per observation, with the levels of the two
  grouping columns and the value, NaN when it is missing.
\<close>

type_synonym ('a, 'b) observations = "('a \<times> 'b \<times> pyfloat) list"

definition obs_key :: "'a \<times> 'b \<times> pyfloat \<Rightarrow> 'a \<times> 'b" where
  "obs_key r = (fst r, fst (snd r))"

definition obs_value :: "'a \<times> 'b \<times> pyfloat \<Rightarrow> pyfloat" where
  "obs_value r = snd (snd r)"

text \<open>
  \<open>df.groupby([a, b])[value_col]\<close>: the keys that occur, in sorted order, each with the
  values of its rows in the order of the rows.
\<close>

definition groupby ::
  "('a::linorder, 'b::linorder) observations \<Rightarrow> (('a \<times> 'b) \<times> pyfloat list) list" where
  "groupby df =
     map (\<lambda>k. (k, map obs_value (filter (\<lambda>r. obs_key r = k) df)))
       (sort (remdups (map obs_key df)))"

text \<open>The loop \<open>for i in range(n_boot)\<close> for one group with values \<open>arr\<close>.\<close>

fun draw_replicates ::
  "(real list \<Rightarrow> pyfloat) \<Rightarrow> real list \<Rightarrow> nat \<Rightarrow> generator \<Rightarrow> pyfloat list \<times> generator" where
  "draw_replicates stat arr 0 rng = ([], rng)"
| "draw_replicates stat arr (Suc i) rng =
     (case integers (length arr) (length arr) rng of
        (idx, rng') \<Rightarrow>
          (let sample = map (\<lambda>k. arr ! k) idx
           in case draw_replicates stat arr i rng' of
                (rest, rng'') \<Rightarrow> (stat sample # rest, rng'')))"

text \<open>
  The loop over the groups. \<open>np.full\<close> and \<open>np.empty\<close> raise ValueError on a negative
  length.
\<close>

fun boot_groups ::
  "(real list \<Rightarrow> pyfloat) \<Rightarrow> int \<Rightarrow> (('a \<times> 'b) \<times> pyfloat list) list \<Rightarrow> generator
     \<Rightarrow> error + (('a \<times> 'b) \<times> pyfloat list) list" where
  "boot_groups stat n_boot [] rng = Inr []"
| "boot_groups stat n_boot ((key, series) # rest) rng =
     (let arr = finite_values series; n = length arr
      in if n_boot < 0 then Inl ValueError
         else if n = 0 then
           (case boot_groups stat n_boot rest rng of
              Inl e \<Rightarrow> Inl e
            | Inr m \<Rightarrow> Inr ((key, replicate (nat n_boot) None) # m))
         else
           (case draw_replicates stat arr (nat n_boot) rng of
              (replicates, rng') \<Rightarrow>
                (case boot_groups stat n_boot rest rng' of
                   Inl e \<Rightarrow> Inl e
                 | Inr m \<Rightarrow> Inr ((key, replicates) # m))))"

definition bootstrap_cell_statistics ::
  "('a::linorder, 'b::linorder) observations \<Rightarrow> (real list \<Rightarrow> pyfloat) \<Rightarrow> int \<Rightarrow> int option
     \<Rightarrow> (int option \<Rightarrow> generator) \<Rightarrow> error + (('a \<times> 'b) \<times> pyfloat list) list" where
  "bootstrap_cell_statistics df stat n_boot random_state default_rng =
     (let rng = rng_from_seed default_rng random_state;
          grouped = groupby df
      in boot_groups stat n_boot grouped rng)"

text \<open>\<open>np.mean\<close>, the default statistic.\<close>

definition np_mean :: "real list \<Rightarrow> pyfloat" where
  "np_mean xs = (if xs = [] then None else Some (sum_list xs / real (length xs)))"

text \<open>\<open>np.pad(v, (0, n_rep - len(v)), constant_values=np.nan)\<close>\<close>

definition pad_nan :: "nat \<Rightarrow> pyfloat list \<Rightarrow> pyfloat list" where
  "pad_nan n_rep v = v @ replicate (n_rep - length v) None"

text \<open>
  A frame of replicates: the rows in order, each with its key and its replicates, all of
  one length. \<open>pd.DataFrame()\<close> is the frame without rows.
\<close>

type_synonym ('a, 'b) boot_frame = "(('a \<times> 'b) \<times> pyfloat list) list"

definition reindex_rows :: "nat \<Rightarrow> ('a, 'b) boot_frame \<Rightarrow> ('a \<times> 'b) list \<Rightarrow> ('a, 'b) boot_frame" where
  "reindex_rows n_rep df mi =
     map (\<lambda>k. (k, case map_of df k of None \<Rightarrow> replicate n_rep None | Some v \<Rightarrow> v)) mi"

definition bootstrap_to_dataframe ::
  "(('a \<times> 'b) \<times> pyfloat list) list \<Rightarrow> 'a list option \<Rightarrow> 'b list option \<Rightarrow> ('a, 'b) boot_frame" where
  "bootstrap_to_dataframe boot_dict levels_a levels_b =
     (if boot_dict = [] then []
      else
        (let n_rep = fold max (map (\<lambda>kv. length (snd kv)) boot_dict) 0;
             df = map (\<lambda>kv. (fst kv, pad_nan n_rep (snd kv))) boot_dict
         in case levels_a of
              None \<Rightarrow> df
            | Some la \<Rightarrow>
                (case levels_b of
                   None \<Rightarrow> df
                 | Some lb \<Rightarrow> reindex_rows n_rep df (List.product la lb))))"

text \<open>The levels that occur in the observations.\<close>

definition levels_a :: "('a, 'b) observations \<Rightarrow> 'a list" where
  "levels_a df = remdups (map (\<lambda>r. fst r) df)"

definition levels_b :: "('a, 'b) observations \<Rightarrow> 'b list" where
  "levels_b df = remdups (map (\<lambda>r. fst (snd r)) df)"

text \<open>Observations for the examples, and a generator whose raw draws are all 0.\<close>

definition obs2 :: "(string, string) observations" where
  "obs2 = [(''A1'', ''B1'', Some 1), (''A2'', ''B2'', Some 2), (''A2'', ''B2'', None)]"

definition obs_nan :: "(string, string) observations" where
  "obs_nan = [(''A1'', ''B1'', Some 1), (''A2'', ''B2'', None)]"

definition zero_rng :: "int option \<Rightarrow> generator" where
  "zero_rng seed = (\<lambda>k. 0)"


subsection \<open>\<open>compute_bootstrap_ci\<close>\<close>

text \<open>
  The process-wide random state of \<open>np.random\<close> is represented by the sequence of
  standard normal variates it will return; \<open>np.random.standard_normal(n)\<close> takes the
  next \<open>n\<close> of them and moves the state on.
\<close>

type_synonym ambient = "nat \<Rightarrow> real"

definition standard_normal :: "nat \<Rightarrow> ambient \<Rightarrow> real list \<times> ambient" where
  "standard_normal n st = (map st [0..<n], (\<lambda>k. st (k + n)))"

text \<open>The number of draws, \<open>100000\<close> in the source.\<close>

definition n_normal_draws :: nat where
  "n_normal_draws = 100000"

text \<open>
  The quantile by linear interpolation between order statistics, the default of NumPy
  and pandas, for a fraction \<open>q\<close> between 0 and 1; NaN for no data.
\<close>

definition quantile_lin :: "real list \<Rightarrow> real \<Rightarrow> pyfloat" where
  "quantile_lin xs q =
     (if xs = [] then None
      else (let s = sort xs;
                h = q * real (length s - 1);
                lo = nat \<lfloor>h\<rfloor>;
                hi = min (lo + 1) (length s - 1)
            in Some (s ! lo + (h - real lo) * (s ! hi - s ! lo))))"

text \<open>\<open>np.percentile\<close> raises ValueError for a percentage outside 0 to 100.\<close>

definition np_percentile :: "real list \<Rightarrow> real \<Rightarrow> error + pyfloat" where
  "np_percentile xs p =
     (if p < 0 \<or> 100 < p then Inl ValueError else Inr (quantile_lin xs (p / 100)))"

text \<open>
  \<open>boot_df.quantile(q, axis=1)\<close>: per row over the entries that are not NaN; ValueError
  for \<open>q\<close> outside 0 to 1.
\<close>

definition frame_quantile :: "('a, 'b) boot_frame \<Rightarrow> real \<Rightarrow> error + pyfloat list" where
  "frame_quantile boot_df q =
     (if q < 0 \<or> 1 < q then Inl ValueError
      else Inr (map (\<lambda>kr. quantile_lin (finite_values (snd kr)) q) boot_df))"

text \<open>\<open>std(ddof=1)\<close> over the entries that are not NaN; NaN for fewer than two.\<close>

definition nanstd :: "pyfloat list \<Rightarrow> pyfloat" where
  "nanstd vs =
     (let ys = finite_values vs; n = length ys
      in if n < 2 then None
         else (let m = sum_list ys / real n
               in Some (sqrt (sum_list (map (\<lambda>y. (y - m) ^ 2) ys) / real (n - 1)))))"

definition fmul :: "pyfloat \<Rightarrow> pyfloat \<Rightarrow> pyfloat" where
  "fmul x y = (case x of None \<Rightarrow> None
     | Some a \<Rightarrow> (case y of None \<Rightarrow> None | Some b \<Rightarrow> Some (a * b)))"

definition fabs :: "pyfloat \<Rightarrow> pyfloat" where
  "fabs x = (case x of None \<Rightarrow> None | Some a \<Rightarrow> Some \<bar>a\<bar>)"

record ci_row =
  estimate :: pyfloat
  se :: pyfloat
  ci_lower :: pyfloat
  ci_upper :: pyfloat

text \<open>\<open>boot_df.empty\<close>: no rows or no columns.\<close>

definition boot_empty :: "('a, 'b) boot_frame \<Rightarrow> bool" where
  "boot_empty boot_df = (case boot_df of [] \<Rightarrow> True | kr # rest \<Rightarrow> snd kr = [])"

text \<open>The output frame, from the four columns.\<close>

definition ci_frame ::
  "('a, 'b) boot_frame \<Rightarrow> pyfloat list \<Rightarrow> pyfloat list \<Rightarrow> pyfloat list \<Rightarrow> pyfloat list
     \<Rightarrow> (('a \<times> 'b) \<times> ci_row) list" where
  "ci_frame boot_df estimates ses lower upper =
     map (\<lambda>i. (fst (boot_df ! i),
                \<lparr>estimate = estimates ! i, se = ses ! i,
                 ci_lower = lower ! i, ci_upper = upper ! i\<rparr>))
       [0..<length boot_df]"

definition compute_bootstrap_ci ::
  "('a, 'b) boot_frame \<Rightarrow> real \<Rightarrow> string \<Rightarrow> ambient
     \<Rightarrow> (error + (('a \<times> 'b) \<times> ci_row) list) \<times> ambient" where
  "compute_bootstrap_ci boot_df alpha ci_method st =
     (if boot_empty boot_df then (Inr [], st)
      else
        (let estimates = map (\<lambda>kr. nanmean (snd kr)) boot_df;
             ses = map (\<lambda>kr. nanstd (snd kr)) boot_df
         in if ci_method = ''percentile'' then
              (case frame_quantile boot_df (alpha / 2) of
                 Inl e \<Rightarrow> (Inl e, st)
               | Inr lower \<Rightarrow>
                   (case frame_quantile boot_df (1 - alpha / 2) of
                      Inl e \<Rightarrow> (Inl e, st)
                    | Inr upper \<Rightarrow> (Inr (ci_frame boot_df estimates ses lower upper), st)))
            else if ci_method = ''se'' then
              (case standard_normal n_normal_draws st of
                 (draws, st') \<Rightarrow>
                   (case np_percentile draws (100 * (1 - alpha / 2)) of
                      Inl e \<Rightarrow> (Inl e, st')
                    | Inr p \<Rightarrow>
                        (let z = fabs p;
                             lower = map (\<lambda>i. fsub (estimates ! i) (fmul z (ses ! i)))
                                       [0..<length boot_df];
                             upper = map (\<lambda>i. fadd (estimates ! i) (fmul z (ses ! i)))
                                       [0..<length boot_df]
                         in (Inr (ci_frame boot_df estimates ses lower upper), st'))))
            else (Inl ValueError, st)))"

text \<open>
  A frame of replicates with the one row 0, 1, 2, and an ambient state that returns 1
  for the first hundred thousand draws and 2 from then on.
\<close>

definition boot3 :: "(string, string) boot_frame" where
  "boot3 = [((''A1'', ''B1''), [Some 0, Some 1, Some 2])]"

definition ambient12 :: ambient where
  "ambient12 k = (if k < n_normal_draws then 1 else 2)"

text \<open>The critical value that the call draws from the ambient state.\<close>

definition sampled_z :: "real \<Rightarrow> ambient \<Rightarrow> pyfloat" where
  "sampled_z alpha st = fabs (quantile_lin (map st [0..<n_normal_draws]) (1 - alpha / 2))"


section \<open>Properties of score.py\<close>

lemma finite_values_mem: "x \<in> set (finite_values vs) \<longleftrightarrow> Some x \<in> set vs"
  unfolding finite_values_def
  by (induction vs) (auto simp: map_filter_simps split: option.splits)

lemma fold_max_ge: "(y::'x::linorder) \<le> fold max ys y"
  by (induction ys arbitrary: y) (auto intro: order_trans [OF max.cobounded2])

lemma fold_max_upper: "x \<in> set ys \<Longrightarrow> (x::'x::linorder) \<le> fold max ys y"
proof (induction ys arbitrary: y)
  case Nil
  then show ?case by simp
next
  case (Cons z zs)
  show ?case
  proof (cases "x = z")
    case True
    have "z \<le> max z y" by simp
    also have "max z y \<le> fold max zs (max z y)" by (rule fold_max_ge)
    finally show ?thesis using True by simp
  next
    case False
    with Cons show ?thesis by simp
  qed
qed

lemma fold_max_mem: "fold max ys (y::'x::linorder) \<in> set (y # ys)"
proof (induction ys arbitrary: y)
  case Nil
  then show ?case by simp
next
  case (Cons z zs)
  have "fold max zs (max z y) \<in> set (max z y # zs)" by (rule Cons.IH)
  moreover have "max z y = z \<or> max z y = y" by (simp add: max_def)
  ultimately show ?case by auto
qed

lemma nanmax_upper: "nanmax vs = Some m \<Longrightarrow> Some x \<in> set vs \<Longrightarrow> x \<le> m"
  unfolding nanmax_def
  by (auto simp: finite_values_mem [symmetric] fold_max_ge fold_max_upper split: list.splits)

lemma nanmax_mem: "nanmax vs = Some m \<Longrightarrow> Some m \<in> set vs"
proof -
  assume h: "nanmax vs = Some m"
  then obtain y ys where fv: "finite_values vs = y # ys" and m: "m = fold max ys y"
    unfolding nanmax_def by (auto split: list.splits)
  have "m \<in> set (finite_values vs)" using fold_max_mem [of ys y] fv m by simp
  then show ?thesis by (simp add: finite_values_mem)
qed

lemma nanmax_None: "nanmax vs = None \<Longrightarrow> Some x \<notin> set vs"
  unfolding nanmax_def
  by (auto simp: finite_values_mem [symmetric] split: list.splits)


lemma frame_size_pos:
  "a \<in> set (index df) \<Longrightarrow> b \<in> set (columns df) \<Longrightarrow> 0 < frame_size df"
  by (cases "index df"; cases "columns df") (auto simp: frame_size_def)

text \<open>
  With both optional tables omitted the score is the table of means, whatever the weights.
\<close>

lemma score_cell:
  "cell (compute_risk_adjusted_score means None None kappa rho flag) a b = cell means a b"
  by (simp add: compute_risk_adjusted_score_def const_frame_def frame_sub_def frame_scale_def
      fsub_def fscale_def split: option.splits)

text \<open>An uncertainty entry that is present is subtracted \<open>kappa\<close> times.\<close>

lemma score_unc_only:
  "a \<in> set (index u) \<Longrightarrow> b \<in> set (columns u) \<Longrightarrow> cell u a b = Some x \<Longrightarrow>
   cell (compute_risk_adjusted_score means (Some u) None kappa rho flag) a b =
     fsub (cell means a b) (Some (kappa * x))"
  by (simp add: compute_risk_adjusted_score_def const_frame_def frame_sub_def frame_scale_def
      fsub_def fscale_def reindex_def fillna_def split: option.splits)

text \<open>
  The score of a cell is \<open>mean - kappa * uncertainty - rho * normalizedCost\<close>, with
  0 for a table that is omitted and for an uncertainty that is missing after reindexing;
  a cost that is missing after reindexing and normalization enters as NaN.
\<close>

lemma score_formula:
  "cell (compute_risk_adjusted_score means uncertainty cost kappa rho flag) a b =
     fsub (fsub (cell means a b)
       (fscale kappa (case uncertainty of None \<Rightarrow> Some 0
          | Some u \<Rightarrow> Some (nan_to_num (cell (reindex u (index means) (columns means)) a b)))))
       (fscale rho (case cost of None \<Rightarrow> Some 0
          | Some c \<Rightarrow>
              cell (if flag then normalize_costs (reindex c (index means) (columns means)) eps_default
                    else reindex c (index means) (columns means)) a b))"
  by (simp add: compute_risk_adjusted_score_def Let_def const_frame_def frame_sub_def
      frame_scale_def fillna_def nan_to_num_def split: option.splits)

text \<open>
  With both weights 0 the score of a cell is its mean, when the cost table is omitted or
  has a cost for the cell after reindexing and normalization.
\<close>

lemma score_raw_means:
  assumes "cost = None \<or> (\<exists>c x. cost = Some c \<and>
      cell (if flag then normalize_costs (reindex c (index means) (columns means)) eps_default
            else reindex c (index means) (columns means)) a b = Some x)"
  shows "cell (compute_risk_adjusted_score means uncertainty cost 0 0 flag) a b = cell means a b"
  using assms unfolding score_formula
  by (cases "cell means a b") (auto simp: fsub_def fscale_def split: option.splits)

text \<open>The values of the unit tests of the scorer.\<close>

lemma score_unit_tests:
  "cell (compute_risk_adjusted_score cm22 (Some unc22) None 1 0 True) ''A1'' ''B1'' = Some (9 / 10)"
  "cell (compute_risk_adjusted_score cm22 (Some unc22) None 1 0 True) ''A2'' ''B2'' = Some (36 / 10)"
  "cell (compute_risk_adjusted_score cm22 (Some unc22) (Some cost22) 0 (1 / 2) True) ''A1'' ''B1''
     = Some (1 / 2)"
  "cell (compute_risk_adjusted_score cm22 (Some unc22) (Some cost22) 0 (1 / 2) True) ''A2'' ''B1''
     = Some (3 - 1 / 4)"
  by (simp_all add: Let_def compute_risk_adjusted_score_def cm22_def unc22_def cost22_def
      const_frame_def reindex_def normalize_costs_def nanmax_def finite_values_def
      frame_values_def map_filter_simps fle_def eps_default_def frame_size_def fillna_def
      frame_div_def fdiv_def frame_sub_def frame_scale_def fsub_def fscale_def)

text \<open>
  C1 (code defect). The score is \<open>means - kappa * uncertainty - rho * normalizedCost\<close>,
  and with \<open>kappa = 0\<close> and \<open>rho = 0\<close> it should be the table of means. The
  uncertainty table is filled with zeros after reindexing, the cost table is not: with a
  cost table that has no column B2, the cell (A1, B2) of the means \<open>[[1, 2], [3, 4]]\<close>
  holds 2, and its score with both weights zero is NaN, with and without cost
  normalization, since zero times NaN is NaN.
\<close>

theorem score_zero_weights_missing_cost:
  "cell cm22 ''A1'' ''B2'' = Some 2 \<and>
   cell (compute_risk_adjusted_score cm22 None (Some (col_b1 10 5)) 0 0 True) ''A1'' ''B2'' = None \<and>
   cell (compute_risk_adjusted_score cm22 None (Some (col_b1 10 5)) 0 0 False) ''A1'' ''B2'' = None"
  by (simp add: Let_def compute_risk_adjusted_score_def cm22_def col_b1_def const_frame_def reindex_def
      normalize_costs_def nanmax_def finite_values_def frame_values_def map_filter_simps fle_def
      eps_default_def frame_size_def fillna_def frame_div_def fdiv_def frame_sub_def
      frame_scale_def fsub_def fscale_def)

text \<open>
  C2 (code defect). An entry missing after reindexing should count as zero for the
  uncertainty table and for the cost table alike. It does for the uncertainty table:
  with \<open>kappa = 1\<close> and an uncertainty table without the column B2, the score of
  (A1, B2) is its mean 2. It does not for the cost table: with a cost table without the
  column B2 and \<open>rho = 1/2\<close>, the score of (A1, B2) is NaN, while the cell (A1, B1),
  whose cost is present, scores \<open>1 - 1/2 * (10 / 10)\<close>.
\<close>

theorem score_missing_cost_entry_not_zero:
  "cell (compute_risk_adjusted_score cm22 (Some (col_b1 (1 / 10) (3 / 10))) None 1 (1 / 2) True)
     ''A1'' ''B2'' = Some 2 \<and>
   cell (compute_risk_adjusted_score cm22 None (Some (col_b1 10 5)) 1 (1 / 2) True)
     ''A1'' ''B2'' = None \<and>
   cell (compute_risk_adjusted_score cm22 None (Some (col_b1 10 5)) 1 (1 / 2) True)
     ''A1'' ''B1'' = Some (1 / 2)"
  by (simp add: Let_def compute_risk_adjusted_score_def cm22_def col_b1_def const_frame_def reindex_def
      normalize_costs_def nanmax_def finite_values_def frame_values_def map_filter_simps fle_def
      eps_default_def frame_size_def fillna_def frame_div_def fdiv_def frame_sub_def
      frame_scale_def fsub_def fscale_def)

text \<open>
  C9, as stated, fails: a cost table whose maximum is positive and at most \<open>eps\<close> is
  returned as it is, not as zeros.
\<close>

theorem normalize_costs_small_max_counterexample:
  "fle (nanmax (frame_values (cost11 (1 / 10 ^ 10)))) (Some eps_default) \<and>
   cell (normalize_costs (cost11 (1 / 10 ^ 10)) eps_default) ''A1'' ''B1'' \<noteq> Some 0"
  by (simp add: normalize_costs_def nanmax_def finite_values_def frame_values_def cost11_def
      map_filter_simps fle_def eps_default_def frame_size_def fillna_def)

lemma nanmax_cost22: "nanmax (frame_values cost22) = Some 10"
  by (simp add: nanmax_def finite_values_def frame_values_def cost22_def map_filter_simps)

text \<open>
  C9 (amended). At every cell of the cost table, with \<open>eps\<close> not negative: when the
  table has a non-missing cost, \<open>m\<close> is the greatest of them; if \<open>m\<close> exceeds
  \<open>eps\<close> the result is the cost divided by \<open>m\<close>, a positive divisor, and a missing
  cost stays missing; if \<open>m\<close> is at most \<open>eps\<close> the result is the cost itself, and
  zero for a missing cost, so the all-zero table gives the all-zero table. A table with
  no cost at all stays all missing. The function returns a table in every case.
\<close>

theorem normalize_costs_cases:
  assumes a: "a \<in> set (index costs)" and b: "b \<in> set (columns costs)" and eps: "0 \<le> eps"
  shows "(case nanmax (frame_values costs) of
            None \<Rightarrow> cell (normalize_costs costs eps) a b = None
          | Some m \<Rightarrow>
              Some m \<in> set (frame_values costs) \<and>
              (\<forall>x. Some x \<in> set (frame_values costs) \<longrightarrow> x \<le> m) \<and>
              (if m \<le> eps
               then cell (normalize_costs costs eps) a b =
                      Some (case cell costs a b of None \<Rightarrow> 0 | Some c \<Rightarrow> c)
               else 0 < m \<and>
                    cell (normalize_costs costs eps) a b =
                      map_option (\<lambda>c. c / m) (cell costs a b)))"
proof (cases "nanmax (frame_values costs)")
  case None
  have "0 < frame_size costs" using a b by (rule frame_size_pos)
  then show ?thesis using None
    by (simp add: normalize_costs_def fle_def frame_div_def fdiv_def split: option.splits)
next
  case (Some m)
  have pos: "0 < frame_size costs" using a b by (rule frame_size_pos)
  have mem: "Some m \<in> set (frame_values costs)" using Some by (rule nanmax_mem)
  have ub: "\<forall>x. Some x \<in> set (frame_values costs) \<longrightarrow> x \<le> m"
    using nanmax_upper [OF Some] by blast
  show ?thesis
  proof (cases "m \<le> eps")
    case True
    then show ?thesis using Some pos mem ub
      by (simp add: normalize_costs_def fle_def fillna_def split: option.splits)
  next
    case False
    then have "0 < m" using eps by simp
    then show ?thesis using Some pos mem ub False
      by (simp add: normalize_costs_def fle_def frame_div_def fdiv_def split: option.splits)
  qed
qed

text \<open>
  The cost table \<open>[[10, 0], [5, 1]]\<close> of the unit test is divided by 10.
\<close>

theorem normalize_costs_cases_witness:
  "''A2'' \<in> set (index cost22) \<and> ''B1'' \<in> set (columns cost22) \<and> (0::real) \<le> eps_default \<and>
   nanmax (frame_values cost22) = Some 10 \<and>
   cell (normalize_costs cost22 eps_default) ''A2'' ''B1'' = Some (1 / 2) \<and>
   cell (normalize_costs cost22 eps_default) ''A1'' ''B1'' = Some 1 \<and>
   cell (normalize_costs cost22 eps_default) ''A1'' ''B2'' = Some 0 \<and>
   cell (normalize_costs cost22 eps_default) ''A2'' ''B2'' = Some (1 / 10)"
  using normalize_costs_cases [of "''A2''" cost22 "''B1''" eps_default]
    normalize_costs_cases [of "''A1''" cost22 "''B1''" eps_default]
    normalize_costs_cases [of "''A1''" cost22 "''B2''" eps_default]
    normalize_costs_cases [of "''A2''" cost22 "''B2''" eps_default]
  by (simp add: nanmax_cost22 eps_default_def) (simp add: cost22_def)

section \<open>Properties of optimizer.py\<close>

subsection \<open>The greedy scan\<close>

lemma greedy_loop_append:
  "greedy_loop bud (xs @ ys) st = greedy_loop bud ys (greedy_loop bud xs st)"
proof (induction xs arbitrary: st)
  case Nil
  then show ?case by simp
next
  case (Cons x xs)
  obtain a b v c where x: "x = (a, b, v, c)" by (cases x)
  obtain sel tot m where st: "st = (sel, tot, m)" by (cases st)
  show ?case unfolding x st by (cases v) (simp_all add: Cons.IH)
qed

lemma greedy_loop_skip_nan:
  "greedy_loop bud (filter scored xs) st = greedy_loop bud xs st"
proof (induction xs arbitrary: st)
  case Nil
  then show ?case by simp
next
  case (Cons x xs)
  obtain a b v c where x: "x = (a, b, v, c)" by (cases x)
  obtain sel tot m where st: "st = (sel, tot, m)" by (cases st)
  have "scored x \<longleftrightarrow> v \<noteq> None" by (simp add: x scored_def g_score_def)
  then show ?case unfolding x st by (cases v) (simp_all add: Cons.IH)
qed

text \<open>The mask does not influence the selection or the total.\<close>

lemma greedy_loop_mask_irrelevant:
  "(case greedy_loop bud xs (sel, tot, m) of (s, t, m') \<Rightarrow> (s, t)) =
   (case greedy_loop bud xs (sel, tot, m2) of (s, t, m') \<Rightarrow> (s, t))"
proof (induction xs arbitrary: sel tot m m2)
  case Nil
  then show ?case by simp
next
  case (Cons x xs)
  obtain a b v c where x: "x = (a, b, v, c)" by (cases x)
  show ?case
  proof (cases v)
    case None
    then show ?thesis using Cons.IH [of sel tot m m2] by (simp add: x)
  next
    case (Some r)
    then show ?thesis
      using Cons.IH [of "sel @ [(a, b)]" "fadd tot c" "set_true m a b" "set_true m2 a b"]
        Cons.IH [of sel tot m m2]
      by (simp add: x)
  qed
qed

lemma greedy_select_scan_sorted:
  "greedy_select_under_budget sort_impl score cost bud =
     greedy_scan bud (py_sorted sort_impl greedy_key (greedy_flat score (given_cost score cost)))"
  unfolding greedy_select_under_budget_def greedy_run_def greedy_scan_def Let_def
  using greedy_loop_mask_irrelevant
    [of bud "py_sorted sort_impl greedy_key (greedy_flat score (given_cost score cost))" "[]" "Some 0"
       "const_frame False (index score) (columns score)" "const_frame False [] []"]
  by simp

text \<open>The cost that the scan reads for a cell is the cost the caller gave it.\<close>

lemma cost_or_one_given: "cost_or_one (given_cost score cost) ab = cost_at cost ab"
  by (cases ab; cases cost) (simp_all add: cost_or_one_def given_cost_def cost_at_def const_frame_def)

lemma greedy_flat_cost_at:
  "greedy_flat score (given_cost score cost) =
     map (\<lambda>ab. (fst ab, snd ab, cell score (fst ab) (snd ab), cost_at cost ab))
       (List.product (index score) (columns score))"
  unfolding greedy_flat_def by (simp add: cost_or_one_given case_prod_beta)

lemma greedy_flat_scored:
  "filter scored (greedy_flat score (given_cost score cost)) = scored_cells score cost"
  unfolding greedy_flat_cost_at scored_cells_def filter_map
  by (rule arg_cong [where f = "map _"], rule filter_cong)
     (auto simp: scored_def g_score_def has_score_def)

lemma greedy_flat_numeric:
  assumes "numeric_costs score cost"
  shows "list_all (\<lambda>x. snd (greedy_key x) \<noteq> None) (greedy_flat score (given_cost score cost))"
  using assms unfolding greedy_flat_cost_at numeric_costs_def
  by (simp add: list_all_iff greedy_key_def)

lemma greedy_key_parts:
  "(\<lambda>x. (fst (greedy_key x), nan_to_num (snd (greedy_key x)))) =
   (\<lambda>x. (- nan_to_num (g_score x), nan_to_num (g_cost x)))"
  by (rule ext) (auto simp: greedy_key_def g_score_def g_cost_def split: prod.splits)

text \<open>
  With a number as the cost of every cell, the selector is the scan over the cells that
  have a score, by descending score and at equal score by ascending cost.
\<close>

lemma greedy_select_eq_scan:
  assumes "numeric_costs score cost"
  shows "greedy_select_under_budget sort_impl score cost bud =
     greedy_scan bud (greedy_order score cost)"
proof -
  let ?flat = "greedy_flat score (given_cost score cost)"
  let ?k = "\<lambda>x. (- nan_to_num (g_score x), nan_to_num (g_cost x))"
  have "py_sorted sort_impl greedy_key ?flat = sort_key ?k ?flat"
    using greedy_flat_numeric [OF assms] by (simp add: py_sorted_def greedy_key_parts)
  moreover have "filter scored (sort_key ?k ?flat) = greedy_order score cost"
    unfolding greedy_order_def greedy_flat_scored [symmetric] by (simp add: filter_sort)
  ultimately have "greedy_scan bud (py_sorted sort_impl greedy_key ?flat) =
      greedy_scan bud (greedy_order score cost)"
    unfolding greedy_scan_def
    using greedy_loop_skip_nan [of bud "sort_key ?k ?flat" "([], Some 0, const_frame False [] [])"]
    by simp
  then show ?thesis unfolding greedy_select_scan_sorted .
qed

lemma greedy_scan_snoc:
  "greedy_scan bud (xs @ [x]) =
     (case greedy_scan bud xs of (sel, tot) \<Rightarrow>
        if scored x \<and> fits (fadd tot (g_cost x)) bud
        then (sel @ [g_cell x], fadd tot (g_cost x)) else (sel, tot))"
proof -
  obtain a b v c where x: "x = (a, b, v, c)" by (cases x)
  obtain sel tot m where st: "greedy_loop bud xs ([], Some 0, const_frame False [] []) = (sel, tot, m)"
    by (cases "greedy_loop bud xs ([], Some 0, const_frame False [] [])")
  show ?thesis unfolding greedy_scan_def greedy_loop_append st x
    by (cases v) (simp_all add: scored_def g_score_def g_cost_def g_cell_def)
qed

lemma greedy_scan_Nil: "greedy_scan bud [] = ([], Some 0)"
  by (simp add: greedy_scan_def)

lemma greedy_order_scored: "x \<in> set (greedy_order score cost) \<Longrightarrow> scored x"
  unfolding greedy_order_def scored_cells_def
  by (auto simp: scored_def g_score_def has_score_def)

lemma greedy_order_set:
  "set (greedy_order score cost) =
     {(a, b, Some v, cost_at cost (a, b)) | a b v.
        a \<in> set (index score) \<and> b \<in> set (columns score) \<and> cell score a b = Some v}"
  unfolding greedy_order_def scored_cells_def has_score_def by (auto simp: image_iff)

lemma greedy_order_length:
  "length (greedy_order score cost) =
     length (filter (has_score score) (List.product (index score) (columns score)))"
  unfolding greedy_order_def scored_cells_def by simp

text \<open>The scan order: a later cell has no greater score, and at equal score no smaller cost.\<close>

lemma greedy_order_sorted:
  assumes "i < j" "j < length (greedy_order score cost)"
  shows "nan_to_num (g_score (greedy_order score cost ! j))
           \<le> nan_to_num (g_score (greedy_order score cost ! i)) \<and>
         (nan_to_num (g_score (greedy_order score cost ! j))
            = nan_to_num (g_score (greedy_order score cost ! i))
           \<longrightarrow> nan_to_num (g_cost (greedy_order score cost ! i))
                 \<le> nan_to_num (g_cost (greedy_order score cost ! j)))"
proof -
  let ?o = "greedy_order score cost"
  let ?k = "\<lambda>x. (- nan_to_num (g_score x), nan_to_num (g_cost x))"
  have "sorted (map ?k ?o)" unfolding greedy_order_def by simp
  then have "map ?k ?o ! i \<le> map ?k ?o ! j"
    using assms by (simp add: sorted_iff_nth_mono)
  then have "?k (?o ! i) \<le> ?k (?o ! j)" using assms by simp
  then show ?thesis by (auto simp: less_eq_prod_def)
qed

text \<open>
  With a number as the cost of every cell: the scan meets exactly the cells that have
  a score, each with the cost the caller gave it, by descending score and at equal score
  by ascending cost; a cell is accepted, and its cost added, exactly when the total so
  far plus its cost is within the budget, and the scan goes on after a cell that is
  passed over.
\<close>

lemma greedy_numeric_costs_scan:
  assumes "numeric_costs score cost"
  shows "greedy_select_under_budget sort_impl score cost bud =
           greedy_scan bud (greedy_order score cost)"
    and "set (greedy_order score cost) =
           {(a, b, Some v, cost_at cost (a, b)) | a b v.
              a \<in> set (index score) \<and> b \<in> set (columns score) \<and> cell score a b = Some v}"
    and "i < j \<Longrightarrow> j < length (greedy_order score cost) \<Longrightarrow>
           nan_to_num (g_score (greedy_order score cost ! j))
             \<le> nan_to_num (g_score (greedy_order score cost ! i)) \<and>
           (nan_to_num (g_score (greedy_order score cost ! j))
              = nan_to_num (g_score (greedy_order score cost ! i))
             \<longrightarrow> nan_to_num (g_cost (greedy_order score cost ! i))
                   \<le> nan_to_num (g_cost (greedy_order score cost ! j)))"
    and "n < length (greedy_order score cost) \<Longrightarrow>
           greedy_scan bud (take (Suc n) (greedy_order score cost)) =
             (case greedy_scan bud (take n (greedy_order score cost)) of
                (sel, tot) \<Rightarrow>
                  if fits (fadd tot (g_cost (greedy_order score cost ! n))) bud
                  then (sel @ [g_cell (greedy_order score cost ! n)],
                        fadd tot (g_cost (greedy_order score cost ! n)))
                  else (sel, tot))"
proof -
  show "greedy_select_under_budget sort_impl score cost bud =
           greedy_scan bud (greedy_order score cost)"
    using assms by (rule greedy_select_eq_scan)
  show "set (greedy_order score cost) =
           {(a, b, Some v, cost_at cost (a, b)) | a b v.
              a \<in> set (index score) \<and> b \<in> set (columns score) \<and> cell score a b = Some v}"
    by (rule greedy_order_set)
  show "i < j \<Longrightarrow> j < length (greedy_order score cost) \<Longrightarrow>
           nan_to_num (g_score (greedy_order score cost ! j))
             \<le> nan_to_num (g_score (greedy_order score cost ! i)) \<and>
           (nan_to_num (g_score (greedy_order score cost ! j))
              = nan_to_num (g_score (greedy_order score cost ! i))
             \<longrightarrow> nan_to_num (g_cost (greedy_order score cost ! i))
                   \<le> nan_to_num (g_cost (greedy_order score cost ! j)))"
    by (rule greedy_order_sorted)
  assume n: "n < length (greedy_order score cost)"
  then have "greedy_order score cost ! n \<in> set (greedy_order score cost)" by simp
  then have "scored (greedy_order score cost ! n)" by (rule greedy_order_scored)
  then show "greedy_scan bud (take (Suc n) (greedy_order score cost)) =
             (case greedy_scan bud (take n (greedy_order score cost)) of
                (sel, tot) \<Rightarrow>
                  if fits (fadd tot (g_cost (greedy_order score cost ! n))) bud
                  then (sel @ [g_cell (greedy_order score cost ! n)],
                        fadd tot (g_cost (greedy_order score cost ! n)))
                  else (sel, tot))"
    using n by (simp add: take_Suc_conv_app_nth greedy_scan_snoc)
qed

text \<open>
  Whatever the costs: the total returned is the total cost of the cells selected, and
  no cell with a NaN cost is selected.
\<close>

lemma greedy_loop_total:
  assumes "\<forall>x \<in> set xs. g_cost x = cost_at cost (g_cell x)"
    and "tot = Some (total_cost cost sel)"
    and "\<forall>ab \<in> set sel. cost_at cost ab \<noteq> None"
    and "greedy_loop bud xs (sel, tot, m) = (sel', tot', m')"
  shows "tot' = Some (total_cost cost sel') \<and> (\<forall>ab \<in> set sel'. cost_at cost ab \<noteq> None)"
  using assms
proof (induction xs arbitrary: sel tot m)
  case Nil
  then show ?case by auto
next
  case (Cons x xs)
  obtain a b v c where x: "x = (a, b, v, c)" by (cases x)
  have c: "c = cost_at cost (a, b)" using Cons.prems(1) by (simp add: x g_cost_def g_cell_def)
  have rest: "\<forall>x \<in> set xs. g_cost x = cost_at cost (g_cell x)" using Cons.prems(1) by simp
  show ?case
  proof (cases "v \<noteq> None \<and> fits (fadd tot c) bud")
    case True
    then obtain r where r: "fadd tot c = Some r"
      by (cases "fadd tot c") (auto simp: fits_def)
    then obtain y where y: "c = Some y" "r = total_cost cost sel + y"
      using Cons.prems(2) by (cases c) (auto simp: fadd_def)
    have t: "fadd tot c = Some (total_cost cost (sel @ [(a, b)]))"
      using r y c by (simp add: total_cost_def nan_to_num_def)
    have s: "\<forall>ab \<in> set (sel @ [(a, b)]). cost_at cost ab \<noteq> None"
      using Cons.prems(3) y c by auto
    have "greedy_loop bud xs (sel @ [(a, b)], fadd tot c, set_true m a b) = (sel', tot', m')"
      using Cons.prems(4) True by (auto simp: x)
    then show ?thesis using Cons.IH [OF rest t s] by blast
  next
    case False
    then have "greedy_loop bud xs (sel, tot, m) = (sel', tot', m')"
      using Cons.prems(4) by (cases v) (auto simp: x)
    then show ?thesis using Cons.IH [OF rest Cons.prems(2) Cons.prems(3)] by blast
  qed
qed

lemma py_sorted_subset:
  assumes "\<forall>ys. set (sort_impl ys) \<subseteq> set ys"
  shows "set (py_sorted sort_impl key xs) \<subseteq> set xs"
  using assms by (simp add: py_sorted_def)

lemma greedy_total_cost:
  assumes "\<forall>ys. set (sort_impl ys) \<subseteq> set ys"
  shows "snd (greedy_select_under_budget sort_impl score cost bud) =
           Some (total_cost cost (fst (greedy_select_under_budget sort_impl score cost bud))) \<and>
         (\<forall>ab \<in> set (fst (greedy_select_under_budget sort_impl score cost bud)).
            cost_at cost ab \<noteq> None)"
proof -
  let ?xs = "py_sorted sort_impl greedy_key (greedy_flat score (given_cost score cost))"
  have "set ?xs \<subseteq> set (greedy_flat score (given_cost score cost))"
    using assms by (rule py_sorted_subset)
  then have xs: "\<forall>x \<in> set ?xs. g_cost x = cost_at cost (g_cell x)"
    unfolding greedy_flat_cost_at by (auto simp: g_cost_def g_cell_def)
  obtain sel tot m where r: "greedy_loop bud ?xs ([], Some 0, const_frame False [] []) = (sel, tot, m)"
    by (cases "greedy_loop bud ?xs ([], Some 0, const_frame False [] [])")
  have "tot = Some (total_cost cost sel) \<and> (\<forall>ab \<in> set sel. cost_at cost ab \<noteq> None)"
    by (rule greedy_loop_total [OF xs _ _ r]) (simp_all add: total_cost_def)
  then show ?thesis unfolding greedy_select_scan_sorted greedy_scan_def r by simp
qed

lemmas greedy_eval =
  greedy_select_under_budget_def greedy_run_def greedy_flat_def greedy_key_def py_sorted_def
  key_lt_def given_cost_def cost_or_one_def nan_to_num_def fits_def fadd_def const_frame_def Let_def

lemma greedy32:
  "greedy_select_under_budget sort_impl score32 (Some cost32) (Bounded 2) =
     ([(''A1'', ''B1''), (''A1'', ''B2'')], Some 2)"
  by (simp add: greedy_eval score32_def cost32_def)

lemma pairs32:
  "\<forall>comb \<in> set (combinations (List.product (index score32) (columns score32)) 2).
     total_score score32 comb \<le> 18"
  by (simp add: numeral_2_eq_2 score32_def total_score_def nan_to_num_def)

lemma sorted22:
  "py_sorted sort_impl greedy_key (greedy_flat score22 (given_cost score22 (Some cost22t))) =
     [(''A1'', ''B2'', Some 5, Some 1), (''A1'', ''B1'', Some 5, Some 2),
      (''A2'', ''B1'', Some 3, Some 4), (''A2'', ''B2'', Some 1, Some 1)]"
  by (simp add: greedy_eval score22_def cost22t_def)

lemma greedy22:
  "greedy_select_under_budget sort_impl score22 (Some cost22t) (Bounded 4) =
     ([(''A1'', ''B2''), (''A1'', ''B1''), (''A2'', ''B2'')], Some 4)"
  by (simp add: greedy_eval score22_def cost22t_def)

lemma sorted13:
  "py_sorted sort_impl greedy_key (greedy_flat score13 (given_cost score13 (Some (cost13 (Some 2))))) =
     [(''A1'', ''B3'', Some 5, Some 1), (''A1'', ''B2'', Some 5, Some 2),
      (''A1'', ''B1'', Some 5, Some 3)]"
  "py_sorted sort_impl greedy_key (greedy_flat score13 (given_cost score13 (Some (cost13 None)))) =
     [(''A1'', ''B1'', Some 5, Some 3), (''A1'', ''B2'', Some 5, None),
      (''A1'', ''B3'', Some 5, Some 1)]"
  by (simp_all add: greedy_eval score13_def cost13_def)

lemma greedy13:
  "greedy_select_under_budget sort_impl score13 (Some (cost13 (Some 2))) (Bounded 3) =
     ([(''A1'', ''B3''), (''A1'', ''B2'')], Some 3)"
  "greedy_select_under_budget sort_impl score13 (Some (cost13 None)) (Bounded 3) =
     ([(''A1'', ''B1'')], Some 3)"
  by (simp_all add: greedy_eval score13_def cost13_def)

text \<open>
  C3 (code defect). The scan should meet the cells that have a score by descending
  score, cells of equal score by ascending cost, accept each cell that fits the budget
  left and go on after a cell that does not. It does when every cost is a number: on
  the scores \<open>[[5, 5], [3, 1]]\<close> with the costs \<open>[[2, 1], [4, 1]]\<close> the cell (A1, B2)
  of cost 1 comes before (A1, B1) of cost 2 and the budget 4 takes both, passes over
  (A2, B1) of cost 4 and takes (A2, B2); on the scores \<open>[[10, 8], [6, 4], [2, 1]]\<close>
  with unit costs and budget 2 the two cells taken are (A1, B1) and (A1, B2), whose
  total score 18 no two cells exceed; on three cells of score 5 with the costs
  \<open>[[3, 2, 1]]\<close> and budget 3 the scan goes by ascending cost and takes (A1, B3) and
  (A1, B2). With a NaN as the middle cost, \<open>[[3, NaN, 1]]\<close>, no key compares less than
  the key before it and the sort leaves the three cells as they are, the cost 3 before
  the cost 1: the scan takes (A1, B1) and passes over (A1, B3), where ascending cost
  takes (A1, B3) of cost 1 first.
\<close>

theorem greedy_nan_cost_order:
  "py_sorted sort_impl greedy_key (greedy_flat score22 (given_cost score22 (Some cost22t))) =
     [(''A1'', ''B2'', Some 5, Some 1), (''A1'', ''B1'', Some 5, Some 2),
      (''A2'', ''B1'', Some 3, Some 4), (''A2'', ''B2'', Some 1, Some 1)] \<and>
   greedy_select_under_budget sort_impl score22 (Some cost22t) (Bounded 4) =
     ([(''A1'', ''B2''), (''A1'', ''B1''), (''A2'', ''B2'')], Some 4) \<and>
   greedy_select_under_budget sort_impl score32 (Some cost32) (Bounded 2) =
     ([(''A1'', ''B1''), (''A1'', ''B2'')], Some 2) \<and>
   total_score score32 [(''A1'', ''B1''), (''A1'', ''B2'')] = 18 \<and>
   list_all (\<lambda>comb. total_score score32 comb \<le> 18)
     (combinations (List.product (index score32) (columns score32)) 2) \<and>
   py_sorted sort_impl greedy_key (greedy_flat score13 (given_cost score13 (Some (cost13 (Some 2))))) =
     [(''A1'', ''B3'', Some 5, Some 1), (''A1'', ''B2'', Some 5, Some 2),
      (''A1'', ''B1'', Some 5, Some 3)] \<and>
   greedy_select_under_budget sort_impl score13 (Some (cost13 (Some 2))) (Bounded 3) =
     ([(''A1'', ''B3''), (''A1'', ''B2'')], Some 3) \<and>
   py_sorted sort_impl greedy_key (greedy_flat score13 (given_cost score13 (Some (cost13 None)))) =
     [(''A1'', ''B1'', Some 5, Some 3), (''A1'', ''B2'', Some 5, None),
      (''A1'', ''B3'', Some 5, Some 1)] \<and>
   greedy_select_under_budget sort_impl score13 (Some (cost13 None)) (Bounded 3) =
     ([(''A1'', ''B1'')], Some 3)"
proof -
  have ts: "total_score score32 [(''A1'', ''B1''), (''A1'', ''B2'')] = 18"
    by (simp add: total_score_def score32_def nan_to_num_def)
  have all: "list_all (\<lambda>comb. total_score score32 comb \<le> 18)
     (combinations (List.product (index score32) (columns score32)) 2)"
    using pairs32 by (simp add: list_all_iff)
  show ?thesis
    using sorted22 greedy22 greedy32 ts all sorted13(1) greedy13(1) sorted13(2) greedy13(2)
    by (intro conjI)
qed

subsection \<open>The exhaustive search\<close>

text \<open>The enumeration holds every sublist of the given length, each once per choice of positions.\<close>

lemma combinations_set:
  "set (combinations xs r) = {ys. subseq ys xs \<and> length ys = r}"
proof (induction xs r rule: combinations.induct)
  case (1 xs)
  then show ?case by auto
next
  case (2 r)
  then show ?case by auto
next
  case (3 x xs r)
  show ?case
  proof (intro set_eqI iffI)
    fix ys assume "ys \<in> set (combinations (x # xs) (Suc r))"
    then consider zs where "ys = x # zs" "zs \<in> set (combinations xs r)"
      | "ys \<in> set (combinations xs (Suc r))" by auto
    then show "ys \<in> {ys. subseq ys (x # xs) \<and> length ys = Suc r}"
    proof cases
      case 1
      then show ?thesis using 3 by auto
    next
      case 2
      then show ?thesis using 3 by auto
    qed
  next
    fix ys assume "ys \<in> {ys. subseq ys (x # xs) \<and> length ys = Suc r}"
    then have s: "subseq ys (x # xs)" and l: "length ys = Suc r" by auto
    from l obtain y zs where ys: "ys = y # zs" by (cases ys) auto
    show "ys \<in> set (combinations (x # xs) (Suc r))"
    proof (cases "y = x")
      case True
      then have "subseq zs xs" using s ys by simp
      then have "zs \<in> set (combinations xs r)" using 3 l ys by simp
      then show ?thesis using True ys by simp
    next
      case False
      then have "subseq ys xs" using s ys by simp
      then have "ys \<in> set (combinations xs (Suc r))" using 3 l by simp
      then show ?thesis by simp
    qed
  qed
qed


lemma exhaustive_loop_append:
  "exhaustive_loop bud (xs @ ys) st = exhaustive_loop bud ys (exhaustive_loop bud xs st)"
proof (induction xs arbitrary: st)
  case Nil
  then show ?case by simp
next
  case (Cons x xs)
  obtain bs bsel where st: "st = (bs, bsel)" by (cases st)
  show ?case unfolding st by (simp add: Cons.IH)
qed

lemma exhaustive_loop_none:
  "exhaustive_loop bud cs (None, []) = (None, sel) \<longleftrightarrow>
     sel = [] \<and> (\<forall>c \<in> set cs. \<not> fits (comb_csum c) bud)"
proof (induction cs arbitrary: sel rule: rev_induct)
  case Nil
  then show ?case by auto
next
  case (snoc c cs)
  obtain bs bsel where r: "exhaustive_loop bud cs (None, []) = (bs, bsel)"
    by (cases "exhaustive_loop bud cs (None, [])")
  show ?case
  proof (cases bs)
    case None
    with r snoc.IH [of bsel] show ?thesis
      by (auto simp: exhaustive_loop_append beats_def)
  next
    case (Some s)
    with r snoc.IH show ?thesis
      by (auto simp: exhaustive_loop_append beats_def)
  qed
qed

lemma exhaustive_loop_some:
  "exhaustive_loop bud cs (None, []) = (Some s, sel) \<Longrightarrow>
     \<exists>i. first_best bud cs i \<and> s = comb_ssum (cs ! i) \<and> sel = comb_sel (cs ! i)"
proof (induction cs arbitrary: s sel rule: rev_induct)
  case Nil
  then show ?case by simp
next
  case (snoc c cs)
  obtain bs bsel where r: "exhaustive_loop bud cs (None, []) = (bs, bsel)"
    by (cases "exhaustive_loop bud cs (None, [])")
  show ?case
  proof (cases "fits (comb_csum c) bud \<and> beats (comb_ssum c) bs")
    case True
    then have res: "s = comb_ssum c" "sel = comb_sel c"
      using snoc.prems r by (auto simp: exhaustive_loop_append)
    have prev: "\<forall>j < length cs. fits (comb_csum (cs ! j)) bud \<longrightarrow> comb_ssum (cs ! j) < comb_ssum c"
    proof (cases bs)
      case None
      then have "\<forall>c \<in> set cs. \<not> fits (comb_csum c) bud"
        using r exhaustive_loop_none [of bud cs bsel] by simp
      then show ?thesis by simp
    next
      case (Some b)
      then obtain i where i: "first_best bud cs i" "b = comb_ssum (cs ! i)"
        using snoc.IH [of b bsel] r by auto
      have "b < comb_ssum c" using True Some by (simp add: beats_def)
      then show ?thesis using i unfolding first_best_def by fastforce
    qed
    have "first_best bud (cs @ [c]) (length cs)"
      unfolding first_best_def using True prev
      by (auto simp: nth_append less_Suc_eq dest: less_imp_le)
    then show ?thesis using res by (intro exI [of _ "length cs"]) simp
  next
    case False
    then have same: "(bs, bsel) = (Some s, sel)"
      using snoc.prems r by (auto simp: exhaustive_loop_append)
    then obtain i where i: "first_best bud cs i" "s = comb_ssum (cs ! i)" "sel = comb_sel (cs ! i)"
      using snoc.IH [of s sel] r by auto
    have il: "i < length cs" using i unfolding first_best_def by simp
    have "\<not> fits (comb_csum c) bud \<or> comb_ssum c \<le> s"
      using False same by (auto simp: beats_def)
    then have "first_best bud (cs @ [c]) i"
      using i unfolding first_best_def
      by (auto simp: nth_append less_Suc_eq)
    then show ?thesis using i il by (intro exI [of _ i]) (simp add: nth_append)
  qed
qed

lemma flatten_aligned:
  assumes "\<forall>ab \<in> set cells. cost = None \<or>
     (\<exists>c. cost = Some c \<and> fst ab \<in> set (index c) \<and> snd ab \<in> set (columns c))"
  shows "flatten score cost cells =
     Inr (map (\<lambda>ab. (ab, nan_to_num (cell score (fst ab) (snd ab)), cost_of cost ab))
            (filter (has_score score) cells))"
  using assms
proof (induction cells)
  case Nil
  then show ?case by simp
next
  case (Cons ab cells)
  obtain a b where ab: "ab = (a, b)" by (cases ab)
  have IH: "flatten score cost cells =
     Inr (map (\<lambda>ab. (ab, nan_to_num (cell score (fst ab) (snd ab)), cost_of cost ab))
            (filter (has_score score) cells))"
    using Cons by simp
  have hs: "has_score score (a, b) \<longleftrightarrow> cell score a b \<noteq> None"
    by (simp add: has_score_def)
  show ?case
  proof (cases "cell score a b")
    case None
    then show ?thesis using IH hs by (simp add: ab)
  next
    case (Some v)
    have "(case cost of None \<Rightarrow> Inr (Some 1) | Some c \<Rightarrow> loc c a b) = Inr (cost_of cost (a, b))"
      using Cons.prems by (auto simp: ab loc_def cost_of_def split: option.splits)
    then show ?thesis using IH Some hs by (simp add: ab nan_to_num_def)
  qed
qed

lemma flatten_candidate_list:
  assumes "aligned score cost"
  shows "flatten score cost (List.product (index score) (columns score)) = Inr (candidate_list score cost)"
  unfolding candidate_list_def
  by (rule flatten_aligned) (use assms in \<open>auto simp: aligned_def split: option.splits\<close>)




lemma exhaustive_best_k_aligned:
  assumes "aligned score cost" and "0 \<le> k"
  shows "exhaustive_best_k score cost k bud =
     (case exhaustive_loop bud (combinations (candidate_list score cost) (nat k)) (None, []) of
        (None, best_sel) \<Rightarrow> Inr ([], 0)
      | (Some best_score, best_sel) \<Rightarrow> Inr (best_sel, best_score))"
  using assms by (simp add: exhaustive_best_k_def flatten_candidate_list)




subsection \<open>The beam search\<close>

text \<open>The loop tracks the best entry over the generations, one after the other.\<close>

lemma beam_loop_generations:
  "beam_loop n bud bw cands beam best =
     fold track (concat (beam_generations n bud bw cands beam)) best"
proof (induction n arbitrary: beam best)
  case 0
  then show ?case by simp
next
  case (Suc n)
  show ?case
  proof (cases "generation bud cands beam = []")
    case True
    then show ?thesis by simp
  next
    case False
    then show ?thesis by (simp add: Let_def Suc.IH)
  qed
qed

lemma fold_track_low:
  "\<forall>e \<in> set es. entry_score e \<le> entry_score best \<Longrightarrow> fold track es best = best"
  by (induction es) (auto simp: track_def)

lemma fold_track_top:
  assumes "\<exists>e \<in> set es. entry_score best < entry_score e"
  shows "\<exists>i. first_top es i \<and> fold track es best = es ! i"
  using assms
proof (induction es rule: rev_induct)
  case Nil
  then show ?case by simp
next
  case (snoc e es)
  let ?r = "fold track es best"
  show ?case
  proof (cases "\<exists>x \<in> set es. entry_score best < entry_score x")
    case True
    then obtain i where i: "first_top es i" "?r = es ! i" using snoc.IH by blast
    have il: "i < length es" using i unfolding first_top_def by simp
    show ?thesis
    proof (cases "entry_score ?r < entry_score e")
      case True
      have "first_top (es @ [e]) (length es)"
        unfolding first_top_def using i True
        by (auto simp: nth_append less_Suc_eq first_top_def intro: less_imp_le order_le_less_trans)
      moreover have "fold track (es @ [e]) best = e" using True by (simp add: track_def)
      ultimately show ?thesis by (intro exI [of _ "length es"]) simp
    next
      case False
      have "first_top (es @ [e]) i"
        using i False unfolding first_top_def
        by (auto simp: nth_append less_Suc_eq)
      moreover have "fold track (es @ [e]) best = es ! i" using False i by (simp add: track_def)
      ultimately show ?thesis using il by (intro exI [of _ i]) (simp add: nth_append)
    qed
  next
    case False
    then have low: "\<forall>x \<in> set es. entry_score x \<le> entry_score best" by auto
    then have r: "?r = best" by (rule fold_track_low)
    have e: "entry_score best < entry_score e" using snoc.prems False by auto
    have lowj: "\<forall>j < length es. entry_score (es ! j) < entry_score e"
      using low e by (auto intro: order_le_less_trans)
    have "first_top (es @ [e]) (length es)"
      unfolding first_top_def using lowj
      by (auto simp: nth_append less_Suc_eq intro: less_imp_le)
    moreover have "fold track (es @ [e]) best = e" using e r by (simp add: track_def)
    ultimately show ?thesis by (intro exI [of _ "length es"]) simp
  qed
qed

text \<open>A total that does not exceed the budget is within it or is NaN.\<close>

lemma not_exceeds: "\<not> exceeds x bud \<longleftrightarrow> x = None \<or> fits x bud"
  by (cases bud; cases x) (auto simp: exceeds_def fits_def)

lemma expand_set:
  "set (expand bud cands (sel, s, c)) =
     {(sel @ [cand], s + v, fadd c w) | cand v w.
        (cand, v, w) \<in> set cands \<and> cand \<notin> set sel \<and> \<not> exceeds (fadd c w) bud}"
  unfolding expand_def by (auto simp: image_iff)

lemma generation_set:
  "set (generation bud cands beam) =
     {(sel @ [cand], s + v, fadd c w) | sel s c cand v w.
        (sel, s, c) \<in> set beam \<and> (cand, v, w) \<in> set cands \<and> cand \<notin> set sel \<and>
        \<not> exceeds (fadd c w) bud}"
proof -
  have "set (generation bud cands beam) = (\<Union>e \<in> set beam. set (expand bud cands e))"
    unfolding generation_def by simp
  also have "\<dots> = {(sel @ [cand], s + v, fadd c w) | sel s c cand v w.
        (sel, s, c) \<in> set beam \<and> (cand, v, w) \<in> set cands \<and> cand \<notin> set sel \<and>
        \<not> exceeds (fadd c w) bud}"
  proof (intro set_eqI iffI)
    fix x assume "x \<in> (\<Union>e \<in> set beam. set (expand bud cands e))"
    then obtain e where e: "e \<in> set beam" "x \<in> set (expand bud cands e)" by blast
    obtain sel s c where esc: "e = (sel, s, c)" by (cases e)
    then have "x \<in> {(sel @ [cand], s + v, fadd c w) | cand v w.
        (cand, v, w) \<in> set cands \<and> cand \<notin> set sel \<and> \<not> exceeds (fadd c w) bud}"
      using e expand_set [of bud cands sel s c] by simp
    then obtain cand v w where "x = (sel @ [cand], s + v, fadd c w)" "(cand, v, w) \<in> set cands"
      "cand \<notin> set sel" "\<not> exceeds (fadd c w) bud" by blast
    with e esc show "x \<in> {(sel @ [cand], s + v, fadd c w) | sel s c cand v w.
        (sel, s, c) \<in> set beam \<and> (cand, v, w) \<in> set cands \<and> cand \<notin> set sel \<and>
        \<not> exceeds (fadd c w) bud}"
      by blast
  next
    fix x assume "x \<in> {(sel @ [cand], s + v, fadd c w) | sel s c cand v w.
        (sel, s, c) \<in> set beam \<and> (cand, v, w) \<in> set cands \<and> cand \<notin> set sel \<and>
        \<not> exceeds (fadd c w) bud}"
    then obtain sel s c cand v w where
      x: "x = (sel @ [cand], s + v, fadd c w)" "(sel, s, c) \<in> set beam"
         "(cand, v, w) \<in> set cands" "cand \<notin> set sel" "\<not> exceeds (fadd c w) bud" by blast
    then have "x \<in> set (expand bud cands (sel, s, c))"
      unfolding expand_set by blast
    with x show "x \<in> (\<Union>e \<in> set beam. set (expand bud cands e))" by blast
  qed
  finally show ?thesis .
qed

lemma truncate_top:
  assumes "0 \<le> bw"
  shows "truncate_beam bw g = take (nat bw) (sort_key (\<lambda>e. - entry_score e) g)"
    and "e \<in> set (truncate_beam bw g) \<Longrightarrow>
         e' \<in> set (drop (nat bw) (sort_key (\<lambda>e. - entry_score e) g)) \<Longrightarrow>
         entry_score e' \<le> entry_score e"
proof -
  let ?s = "sort_key (\<lambda>e. - entry_score e) g"
  show t: "truncate_beam bw g = take (nat bw) ?s" using assms by (simp add: truncate_beam_def py_take_def)
  assume "e \<in> set (truncate_beam bw g)" "e' \<in> set (drop (nat bw) ?s)"
  then obtain i j where i: "i < length (take (nat bw) ?s)" "e = take (nat bw) ?s ! i"
    and j: "j < length (drop (nat bw) ?s)" "e' = drop (nat bw) ?s ! j"
    unfolding t by (metis in_set_conv_nth)
  have srt: "sorted (map (\<lambda>e. - entry_score e) ?s)" by simp
  have ii: "i < nat bw" "i < length ?s" using i by auto
  have jj: "nat bw + j < length ?s" using j by auto
  have "map (\<lambda>e. - entry_score e) ?s ! i \<le> map (\<lambda>e. - entry_score e) ?s ! (nat bw + j)"
    using srt ii jj by (intro sorted_nth_mono) auto
  then have "entry_score (?s ! (nat bw + j)) \<le> entry_score (?s ! i)"
    using ii jj by simp
  then show "entry_score e' \<le> entry_score e" using i j ii jj by simp
qed


lemma beam_generations_length: "length (beam_generations n bud bw cands beam) \<le> n"
  by (induction n arbitrary: beam) (auto simp: Let_def)

lemma beam_generations_nonempty: "g \<in> set (beam_generations n bud bw cands beam) \<Longrightarrow> g \<noteq> []"
  by (induction n arbitrary: beam) (auto simp: Let_def split: if_splits)

lemma beam_generations_first:
  "beam_generations n bud bw cands beam \<noteq> [] \<Longrightarrow>
     beam_generations n bud bw cands beam ! 0 = generation bud cands beam"
  by (cases n) (auto simp: Let_def split: if_splits)

lemma beam_generations_next:
  "Suc i < length (beam_generations n bud bw cands beam) \<Longrightarrow>
     beam_generations n bud bw cands beam ! Suc i =
       generation bud cands (truncate_beam bw (beam_generations n bud bw cands beam ! i))"
proof (induction n arbitrary: beam i)
  case 0
  then show ?case by simp
next
  case (Suc n)
  let ?g = "generation bud cands beam"
  let ?rest = "beam_generations n bud bw cands (truncate_beam bw ?g)"
  have ne: "?g \<noteq> []" using Suc.prems by (auto simp: Let_def split: if_splits)
  then have gens: "beam_generations (Suc n) bud bw cands beam = ?g # ?rest" by (simp add: Let_def)
  show ?case
  proof (cases i)
    case 0
    then have "?rest \<noteq> []" using Suc.prems gens by auto
    then have "?rest ! 0 = generation bud cands (truncate_beam bw ?g)" by (rule beam_generations_first)
    then show ?thesis using 0 gens by simp
  next
    case (Suc i')
    then have "Suc i' < length ?rest" using Suc.prems gens by simp
    then have "?rest ! Suc i' = generation bud cands (truncate_beam bw (?rest ! i'))" by (rule Suc.IH)
    then show ?thesis using Suc gens by simp
  qed
qed

lemma beam_generations_stop:
  "length (beam_generations n bud bw cands beam) < n \<Longrightarrow>
     generation bud cands
       (if beam_generations n bud bw cands beam = [] then beam
        else truncate_beam bw (last (beam_generations n bud bw cands beam))) = []"
proof (induction n arbitrary: beam)
  case 0
  then show ?case by simp
next
  case (Suc n)
  let ?g = "generation bud cands beam"
  show ?case
  proof (cases "?g = []")
    case True
    then show ?thesis by simp
  next
    case False
    then have gens: "beam_generations (Suc n) bud bw cands beam =
        ?g # beam_generations n bud bw cands (truncate_beam bw ?g)" by (simp add: Let_def)
    then have "length (beam_generations n bud bw cands (truncate_beam bw ?g)) < n"
      using Suc.prems by simp
    then show ?thesis using Suc.IH [of "truncate_beam bw ?g"] gens by auto
  qed
qed

lemma aligned_given_cost: "aligned score cost \<Longrightarrow> aligned score (Some (given_cost score cost))"
  by (cases cost) (auto simp: aligned_def given_cost_def const_frame_def)

text \<open>For a cost table that has every label, the candidates carry the cost the caller gave.\<close>

lemma cost_of_given:
  assumes "aligned score cost" and "fst ab \<in> set (index score)" and "snd ab \<in> set (columns score)"
  shows "cost_of (Some (given_cost score cost)) ab = cost_at cost ab"
  using assms
  by (cases cost) (auto simp: cost_of_def given_cost_def cost_at_def const_frame_def aligned_def)

lemma beam_candidates_set:
  assumes "aligned score cost"
  shows "set (beam_candidates score cost) =
     {((a, b), v, cost_at cost (a, b)) | a b v.
        a \<in> set (index score) \<and> b \<in> set (columns score) \<and> cell score a b = Some v}"
proof -
  have "set (beam_candidates score cost) =
      (\<lambda>ab. (ab, nan_to_num (cell score (fst ab) (snd ab)), cost_of (Some (given_cost score cost)) ab))
        ` {ab \<in> set (List.product (index score) (columns score)). has_score score ab}"
    by (simp add: beam_candidates_def candidate_list_def)
  also have "\<dots> =
      (\<lambda>ab. (ab, nan_to_num (cell score (fst ab) (snd ab)), cost_at cost ab))
        ` {ab \<in> set (List.product (index score) (columns score)). has_score score ab}"
    by (rule image_cong) (auto simp: cost_of_given [OF assms])
  also have "\<dots> = {((a, b), v, cost_at cost (a, b)) | a b v.
        a \<in> set (index score) \<and> b \<in> set (columns score) \<and> cell score a b = Some v}"
    by (auto simp: has_score_def nan_to_num_def image_iff)
  finally show ?thesis .
qed

lemma given_cost_Some: "given_cost score (Some (given_cost score cost)) = given_cost score cost"
  by (simp add: given_cost_def)

lemma greedy_select_given_cost:
  "greedy_select_under_budget sort_impl score (Some (given_cost score cost)) bud =
     greedy_select_under_budget sort_impl score cost bud"
  by (simp add: greedy_select_under_budget_def greedy_run_def given_cost_Some)

lemma beam_search_unfold:
  assumes "aligned score cost"
  shows "beam_search_pair_selection sort_impl score cost bud bw max_iters =
     (let best = fold track (all_entries score cost bud bw max_iters) ([], 0, Some 0)
      in if entry_score best \<le> 0
         then Inr (greedy_select_under_budget sort_impl score cost bud)
         else Inr (entry_sel best, Some (entry_score best)))"
proof -
  have "flatten score (Some (given_cost score cost)) (List.product (index score) (columns score)) =
      Inr (candidate_list score (Some (given_cost score cost)))"
    using assms by (intro flatten_candidate_list aligned_given_cost)
  then show ?thesis
    unfolding beam_search_pair_selection_def all_entries_def search_generations_def
      beam_candidates_def beam_iters_def
    by (simp add: Let_def beam_loop_generations greedy_select_given_cost)
qed


lemma beam_best_entry:
  assumes al: "aligned score cost"
    and ex: "\<exists>e \<in> set (all_entries score cost bud bw max_iters). 0 < entry_score e"
  shows "\<exists>i. first_top (all_entries score cost bud bw max_iters) i \<and>
            beam_search_pair_selection sort_impl score cost bud bw max_iters =
              Inr (entry_sel (all_entries score cost bud bw max_iters ! i),
                   Some (entry_score (all_entries score cost bud bw max_iters ! i)))"
proof -
  let ?all = "all_entries score cost bud bw max_iters"
  note un = beam_search_unfold [OF al, of sort_impl bud bw max_iters]
  have z: "entry_score (([], 0, Some 0) :: ('a, 'b) entry) = 0" by (simp add: entry_score_def)
  have "\<exists>e \<in> set ?all. entry_score (([], 0, Some 0) :: ('a, 'b) entry) < entry_score e"
    using ex z by simp
  then obtain i where i: "first_top ?all i" "fold track ?all ([], 0, Some 0) = ?all ! i"
    using fold_track_top [of ?all "([], 0, Some 0)"] by blast
  from ex obtain e where e: "e \<in> set ?all" "0 < entry_score e" by blast
  then obtain j where "j < length ?all" "e = ?all ! j" by (metis in_set_conv_nth)
  then have "entry_score e \<le> entry_score (?all ! i)" using i unfolding first_top_def by simp
  then have "0 < entry_score (?all ! i)" using e by simp
  then have "beam_search_pair_selection sort_impl score cost bud bw max_iters =
            Inr (entry_sel (?all ! i), Some (entry_score (?all ! i)))"
    using un i by (simp add: Let_def)
  with i show ?thesis by blast
qed

lemma beam_fallback:
  assumes al: "aligned score cost"
    and low: "\<forall>e \<in> set (all_entries score cost bud bw max_iters). entry_score e \<le> 0"
  shows "beam_search_pair_selection sort_impl score cost bud bw max_iters =
         Inr (greedy_select_under_budget sort_impl score cost bud)"
proof -
  let ?all = "all_entries score cost bud bw max_iters"
  note un = beam_search_unfold [OF al, of sort_impl bud bw max_iters]
  have z: "entry_score (([], 0, Some 0) :: ('a, 'b) entry) = 0" by (simp add: entry_score_def)
  have "\<forall>e \<in> set ?all. entry_score e \<le> entry_score (([], 0, Some 0) :: ('a, 'b) entry)"
    using low z by simp
  then have "fold track ?all ([], 0, Some 0) = ([], 0, Some 0)" by (rule fold_track_low)
  then show ?thesis using un z by (simp add: Let_def)
qed

text \<open>
  For a cost table that is omitted or has every label of the score table. The
  candidates are the cells that have a score, each with the cost the caller gave it, by
  descending score. A generation made from a beam holds exactly the entries that extend
  an entry of the beam by a candidate not yet in its selection whose cost does not take
  the total above the budget; a total that is a number is then within the budget. For a
  beam width that is not negative, the beam kept from a generation is its first
  \<open>beam_width\<close> entries by descending score. The generations of a call start from the
  empty selection, each next one is made from the beam kept from the one before, there
  are at most \<open>max_iters\<close> of them, and fewer only when nothing can be expanded.
\<close>

lemma beam_search_generations:
  assumes al: "aligned score cost"
  shows "set (beam_candidates score cost) =
           {((a, b), v, cost_at cost (a, b)) | a b v.
              a \<in> set (index score) \<and> b \<in> set (columns score) \<and> cell score a b = Some v}"
    and "sorted (map (\<lambda>x. - fst (snd x)) (beam_candidates score cost))"
    and "set (generation bud (beam_candidates score cost) beam) =
           {(sel @ [cand], s + v, fadd c w) | sel s c cand v w.
              (sel, s, c) \<in> set beam \<and> (cand, v, w) \<in> set (beam_candidates score cost) \<and>
              cand \<notin> set sel \<and> \<not> exceeds (fadd c w) bud}"
    and "\<not> exceeds (Some x) bud \<longleftrightarrow> fits (Some x) bud"
    and "0 \<le> bw \<Longrightarrow> truncate_beam bw g = take (nat bw) (sort_key (\<lambda>e. - entry_score e) g)"
    and "length (search_generations score cost bud bw max_iters)
           \<le> beam_iters max_iters (length (beam_candidates score cost))"
    and "search_generations score cost bud bw max_iters \<noteq> [] \<Longrightarrow>
           search_generations score cost bud bw max_iters ! 0 =
             generation bud (beam_candidates score cost) [([], 0, Some 0)]"
    and "Suc i < length (search_generations score cost bud bw max_iters) \<Longrightarrow>
           search_generations score cost bud bw max_iters ! Suc i =
             generation bud (beam_candidates score cost)
               (truncate_beam bw (search_generations score cost bud bw max_iters ! i))"
    and "length (search_generations score cost bud bw max_iters)
           < beam_iters max_iters (length (beam_candidates score cost)) \<Longrightarrow>
           generation bud (beam_candidates score cost)
             (if search_generations score cost bud bw max_iters = [] then [([], 0, Some 0)]
              else truncate_beam bw (last (search_generations score cost bud bw max_iters))) = []"
proof -
  show "set (beam_candidates score cost) =
           {((a, b), v, cost_at cost (a, b)) | a b v.
              a \<in> set (index score) \<and> b \<in> set (columns score) \<and> cell score a b = Some v}"
    using al by (rule beam_candidates_set)
  show "sorted (map (\<lambda>x. - fst (snd x)) (beam_candidates score cost))"
    by (simp add: beam_candidates_def)
  show "set (generation bud (beam_candidates score cost) beam) =
           {(sel @ [cand], s + v, fadd c w) | sel s c cand v w.
              (sel, s, c) \<in> set beam \<and> (cand, v, w) \<in> set (beam_candidates score cost) \<and>
              cand \<notin> set sel \<and> \<not> exceeds (fadd c w) bud}"
    by (rule generation_set)
  show "\<not> exceeds (Some x) bud \<longleftrightarrow> fits (Some x) bud" by (simp add: not_exceeds)
  show "0 \<le> bw \<Longrightarrow> truncate_beam bw g = take (nat bw) (sort_key (\<lambda>e. - entry_score e) g)"
    by (rule truncate_top(1))
  show "length (search_generations score cost bud bw max_iters)
           \<le> beam_iters max_iters (length (beam_candidates score cost))"
    unfolding search_generations_def by (rule beam_generations_length)
  show "search_generations score cost bud bw max_iters \<noteq> [] \<Longrightarrow>
           search_generations score cost bud bw max_iters ! 0 =
             generation bud (beam_candidates score cost) [([], 0, Some 0)]"
    unfolding search_generations_def by (rule beam_generations_first)
  show "Suc i < length (search_generations score cost bud bw max_iters) \<Longrightarrow>
           search_generations score cost bud bw max_iters ! Suc i =
             generation bud (beam_candidates score cost)
               (truncate_beam bw (search_generations score cost bud bw max_iters ! i))"
    unfolding search_generations_def by (rule beam_generations_next)
  show "length (search_generations score cost bud bw max_iters)
           < beam_iters max_iters (length (beam_candidates score cost)) \<Longrightarrow>
           generation bud (beam_candidates score cost)
             (if search_generations score cost bud bw max_iters = [] then [([], 0, Some 0)]
              else truncate_beam bw (last (search_generations score cost bud bw max_iters))) = []"
    unfolding search_generations_def by (rule beam_generations_stop)
qed

lemmas beam_eval =
  all_entries_def search_generations_def beam_candidates_def candidate_list_def has_score_def
  given_cost_def const_frame_def cost_of_def beam_iters_def generation_def expand_def
  truncate_beam_def py_take_def entry_score_def entry_sel_def exceeds_def fadd_def
  nan_to_num_def Let_def

lemma gens22:
  "search_generations score22 (Some cost22t) (Bounded 4) 2 None =
     [[([(''A1'', ''B1'')], 5, Some 2), ([(''A1'', ''B2'')], 5, Some 1),
       ([(''A2'', ''B1'')], 3, Some 4), ([(''A2'', ''B2'')], 1, Some 1)],
      [([(''A1'', ''B1''), (''A1'', ''B2'')], 10, Some 3),
       ([(''A1'', ''B1''), (''A2'', ''B2'')], 6, Some 3),
       ([(''A1'', ''B2''), (''A1'', ''B1'')], 10, Some 3),
       ([(''A1'', ''B2''), (''A2'', ''B2'')], 6, Some 2)],
      [([(''A1'', ''B1''), (''A1'', ''B2''), (''A2'', ''B2'')], 11, Some 4),
       ([(''A1'', ''B2''), (''A1'', ''B1''), (''A2'', ''B2'')], 11, Some 4)]]"
  by (simp add: beam_eval score22_def cost22t_def numeral_eq_Suc)

lemma beam22:
  "beam_search_pair_selection sort_impl score22 (Some cost22t) (Bounded 4) 2 None =
     Inr ([(''A1'', ''B1''), (''A1'', ''B2''), (''A2'', ''B2'')], Some 11)"
  by (simp add: beam_search_pair_selection_def beam_eval score22_def cost22t_def loc_def
      track_def numeral_eq_Suc)

lemma gens53:
  "search_generations score53 (Some (cost12 None)) (Bounded (1 / 2)) 5 None =
     [[([(''A1'', ''B1'')], 5, None)], [([(''A1'', ''B1''), (''A1'', ''B2'')], 8, None)]]"
  "search_generations score53 (Some (cost12 (Some 2))) (Bounded (1 / 2)) 5 None = []"
  by (simp_all add: beam_eval score53_def cost12_def numeral_eq_Suc)

lemma beam53:
  "beam_search_pair_selection sort_impl score53 (Some (cost12 None)) (Bounded (1 / 2)) 5 None =
     Inr ([(''A1'', ''B1''), (''A1'', ''B2'')], Some 8)"
  "beam_search_pair_selection sort_impl score53 (Some (cost12 (Some 2))) (Bounded (1 / 2)) 5 None =
     Inr ([], Some 0)"
  by (simp_all add: beam_search_pair_selection_def beam_eval greedy_eval score53_def cost12_def
      loc_def track_def numeral_eq_Suc)

lemma greedy53:
  "greedy_select_under_budget sort_impl score53 (Some (cost12 None)) (Bounded (1 / 2)) = ([], Some 0)"
  by (simp add: greedy_eval score53_def cost12_def)

lemma exhaustive53:
  "exhaustive_best_k score53 (Some (cost12 None)) 1 (Bounded (1 / 2)) = Inr ([], 0)"
  by (simp add: exhaustive_best_k_def score53_def cost12_def loc_def fits_def fadd_def beats_def
      comb_sel_def comb_ssum_def comb_csum_def)

lemma gens12:
  "search_generations score12 None Unbounded 5 None =
     [[([(''A1'', ''B1'')], 5, Some 1), ([(''A1'', ''B2'')], - 1, Some 1)],
      [([(''A1'', ''B1''), (''A1'', ''B2'')], 4, Some 2),
       ([(''A1'', ''B2''), (''A1'', ''B1'')], 4, Some 2)]]"
  by (simp add: beam_eval score12_def numeral_eq_Suc)

lemma beam12:
  "beam_search_pair_selection sort_impl score12 None Unbounded 5 None =
     Inr ([(''A1'', ''B1'')], Some 5)"
  by (simp add: beam_search_pair_selection_def beam_eval score12_def loc_def track_def
      numeral_eq_Suc)

lemma all11:
  "all_entries score11 (Some (cost11 2)) Unbounded 5 None = [([(''A1'', ''B1'')], - 1, Some 2)]"
  by (simp add: beam_eval score11_def cost11_def)

lemma greedy11:
  "greedy_select_under_budget sort_impl score11 (Some (cost11 2)) Unbounded =
     ([(''A1'', ''B1'')], Some 2)"
  by (simp add: greedy_eval score11_def cost11_def)

lemma beam11:
  "beam_search_pair_selection sort_impl score11 (Some (cost11 2)) Unbounded 5 None =
     Inr ([(''A1'', ''B1'')], Some 2)"
  by (simp add: beam_search_pair_selection_def beam_eval greedy_eval score11_def cost11_def
      loc_def track_def)

text \<open>
  C8 (code defect). An entry of the beam should be extended only by a candidate that
  keeps the total cost within the budget. It is when the costs are numbers: on the
  scores \<open>[[5, 5], [3, 1]]\<close> with the costs \<open>[[2, 1], [4, 1]]\<close>, budget 4 and beam
  width 2, no entry of the three generations costs more than 4, each generation is cut to
  its two best entries, and the call returns the first entry of score 11; on
  \<open>[[5, -1]]\<close> the entry returned, of score 5, is of the first of two generations; on
  \<open>[[-1]]\<close> no entry is positive and the greedy result comes back; on the scores
  \<open>[[5, 3]]\<close> with the costs \<open>[[2, 1]]\<close> and budget 1/2 no candidate can be added
  and the result is the empty selection. With a NaN cost for the first cell,
  \<open>[[NaN, 1]]\<close>, the test \<open>new_cost > budget\<close> is false on the NaN total: the first
  cell is added, and the second after it, whose cost 1 alone is above the budget 1/2, and
  the call returns both cells with the score 8. On the same tables the greedy and the
  exhaustive selector, which test \<open><= budget\<close>, select nothing.
\<close>

theorem beam_nan_cost_over_budget:
  "search_generations score22 (Some cost22t) (Bounded 4) 2 None =
     [[([(''A1'', ''B1'')], 5, Some 2), ([(''A1'', ''B2'')], 5, Some 1),
       ([(''A2'', ''B1'')], 3, Some 4), ([(''A2'', ''B2'')], 1, Some 1)],
      [([(''A1'', ''B1''), (''A1'', ''B2'')], 10, Some 3),
       ([(''A1'', ''B1''), (''A2'', ''B2'')], 6, Some 3),
       ([(''A1'', ''B2''), (''A1'', ''B1'')], 10, Some 3),
       ([(''A1'', ''B2''), (''A2'', ''B2'')], 6, Some 2)],
      [([(''A1'', ''B1''), (''A1'', ''B2''), (''A2'', ''B2'')], 11, Some 4),
       ([(''A1'', ''B2''), (''A1'', ''B1''), (''A2'', ''B2'')], 11, Some 4)]] \<and>
   beam_search_pair_selection sort_impl score22 (Some cost22t) (Bounded 4) 2 None =
     Inr ([(''A1'', ''B1''), (''A1'', ''B2''), (''A2'', ''B2'')], Some 11) \<and>
   search_generations score12 None Unbounded 5 None =
     [[([(''A1'', ''B1'')], 5, Some 1), ([(''A1'', ''B2'')], - 1, Some 1)],
      [([(''A1'', ''B1''), (''A1'', ''B2'')], 4, Some 2),
       ([(''A1'', ''B2''), (''A1'', ''B1'')], 4, Some 2)]] \<and>
   beam_search_pair_selection sort_impl score12 None Unbounded 5 None =
     Inr ([(''A1'', ''B1'')], Some 5) \<and>
   all_entries score11 (Some (cost11 2)) Unbounded 5 None = [([(''A1'', ''B1'')], - 1, Some 2)] \<and>
   greedy_select_under_budget sort_impl score11 (Some (cost11 2)) Unbounded =
     ([(''A1'', ''B1'')], Some 2) \<and>
   beam_search_pair_selection sort_impl score11 (Some (cost11 2)) Unbounded 5 None =
     Inr ([(''A1'', ''B1'')], Some 2) \<and>
   search_generations score53 (Some (cost12 (Some 2))) (Bounded (1 / 2)) 5 None = [] \<and>
   beam_search_pair_selection sort_impl score53 (Some (cost12 (Some 2))) (Bounded (1 / 2)) 5 None =
     Inr ([], Some 0) \<and>
   search_generations score53 (Some (cost12 None)) (Bounded (1 / 2)) 5 None =
     [[([(''A1'', ''B1'')], 5, None)], [([(''A1'', ''B1''), (''A1'', ''B2'')], 8, None)]] \<and>
   beam_search_pair_selection sort_impl score53 (Some (cost12 None)) (Bounded (1 / 2)) 5 None =
     Inr ([(''A1'', ''B1''), (''A1'', ''B2'')], Some 8) \<and>
   cost_at (Some (cost12 None)) (''A1'', ''B1'') = None \<and>
   cost_at (Some (cost12 None)) (''A1'', ''B2'') = Some 1 \<and>
   greedy_select_under_budget sort_impl score53 (Some (cost12 None)) (Bounded (1 / 2)) =
     ([], Some 0) \<and>
   exhaustive_best_k score53 (Some (cost12 None)) 1 (Bounded (1 / 2)) = Inr ([], 0)"
proof -
  have c: "cost_at (Some (cost12 None)) (''A1'', ''B1'') = None"
    "cost_at (Some (cost12 None)) (''A1'', ''B2'') = Some 1"
    by (simp_all add: cost_at_def cost12_def)
  show ?thesis
    using gens22 beam22 gens12 beam12 all11 greedy11 beam11 gens53(2) beam53(2) gens53(1)
      beam53(1) c greedy53 exhaustive53
    by (intro conjI)
qed

subsection \<open>The scalar returned with the selection\<close>

lemma total_score_append:
  "total_score score (xs @ ys) = total_score score xs + total_score score ys"
  by (simp add: total_score_def)
lemma candidate_list_score:
  "(cand, v, w) \<in> set (candidate_list score cost) \<Longrightarrow>
     v = nan_to_num (cell score (fst cand) (snd cand))"
  unfolding candidate_list_def by auto

lemma comb_total_score:
  assumes "set comb \<subseteq> set (candidate_list score cost)"
  shows "comb_ssum comb = total_score score (comb_sel comb)"
  using assms
proof (induction comb)
  case Nil
  then show ?case by (simp add: comb_ssum_def comb_sel_def total_score_def)
next
  case (Cons x comb)
  obtain cand v w where x: "x = (cand, v, w)" by (cases x)
  then have "v = nan_to_num (cell score (fst cand) (snd cand))"
    using Cons.prems candidate_list_score [of cand v w score cost] by simp
  moreover have "comb_ssum comb = total_score score (comb_sel comb)" using Cons by simp
  ultimately show ?case using x by (simp add: comb_ssum_def comb_sel_def total_score_def)
qed

lemma subseq_set: "subseq xs ys \<Longrightarrow> set xs \<subseteq> set ys"
  by (induction rule: list_emb.induct) auto

lemma exhaustive_total_score:
  assumes al: "aligned score cost" and k: "0 \<le> k"
  shows "\<exists>sel. exhaustive_best_k score cost k bud = Inr (sel, total_score score sel)"
proof -
  let ?cs = "combinations (candidate_list score cost) (nat k)"
  note ex = exhaustive_best_k_aligned [OF al k, of bud]
  obtain bs bsel where r: "exhaustive_loop bud ?cs (None, []) = (bs, bsel)"
    by (cases "exhaustive_loop bud ?cs (None, [])")
  show ?thesis
  proof (cases bs)
    case None
    then have "exhaustive_best_k score cost k bud = Inr ([], total_score score [])"
      using ex r by (simp add: total_score_def)
    then show ?thesis by blast
  next
    case (Some s)
    then obtain i where i: "first_best bud ?cs i" "s = comb_ssum (?cs ! i)" "bsel = comb_sel (?cs ! i)"
      using exhaustive_loop_some [of bud ?cs s bsel] r by auto
    then have "?cs ! i \<in> set ?cs" unfolding first_best_def by simp
    then have "subseq (?cs ! i) (candidate_list score cost)" unfolding combinations_set by simp
    then have "set (?cs ! i) \<subseteq> set (candidate_list score cost)" by (rule subseq_set)
    then have "comb_ssum (?cs ! i) = total_score score (comb_sel (?cs ! i))"
      by (rule comb_total_score)
    then have "exhaustive_best_k score cost k bud = Inr (bsel, total_score score bsel)"
      using ex r Some i by simp
    then show ?thesis by blast
  qed
qed

lemma generation_consistent:
  assumes "\<forall>e \<in> set beam. consistent score e"
    and "set cands \<subseteq> set (candidate_list score cost)"
  shows "\<forall>e \<in> set (generation bud cands beam). consistent score e"
proof
  fix e assume "e \<in> set (generation bud cands beam)"
  then obtain sel s c cand v w where
    e: "e = (sel @ [cand], s + v, fadd c w)" "(sel, s, c) \<in> set beam" "(cand, v, w) \<in> set cands"
    unfolding generation_set by blast
  have "s = total_score score sel"
    using assms(1) e(2) by (auto simp: consistent_def entry_score_def entry_sel_def)
  moreover have "v = nan_to_num (cell score (fst cand) (snd cand))"
    using assms(2) e(3) candidate_list_score [of cand v w score cost] by blast
  ultimately show "consistent score e"
    unfolding e(1) by (simp add: consistent_def entry_score_def entry_sel_def total_score_def)
qed

lemma truncate_subset: "set (truncate_beam bw g) \<subseteq> set g"
  unfolding truncate_beam_def py_take_def
  by (auto dest: in_set_takeD)

lemma beam_generations_consistent:
  assumes "\<forall>e \<in> set beam. consistent score e"
    and "set cands \<subseteq> set (candidate_list score cost)"
  shows "\<forall>e \<in> set (concat (beam_generations n bud bw cands beam)). consistent score e"
  using assms(1)
proof (induction n arbitrary: beam)
  case 0
  then show ?case by simp
next
  case (Suc n)
  let ?g = "generation bud cands beam"
  have g: "\<forall>e \<in> set ?g. consistent score e"
    using Suc.prems assms(2) by (rule generation_consistent)
  then have "\<forall>e \<in> set (truncate_beam bw ?g). consistent score e"
    using truncate_subset [of bw ?g] by blast
  then have "\<forall>e \<in> set (concat (beam_generations n bud bw cands (truncate_beam bw ?g))). consistent score e"
    by (rule Suc.IH)
  with g show ?case by (auto simp: Let_def)
qed

lemma all_entries_consistent:
  "e \<in> set (all_entries score cost bud bw max_iters) \<Longrightarrow> consistent score e"
proof -
  have "\<forall>e \<in> set [([], 0, Some 0) :: ('a, 'b) entry]. consistent score e"
    by (simp add: consistent_def entry_score_def entry_sel_def total_score_def)
  moreover have "set (beam_candidates score cost) \<subseteq>
      set (candidate_list score (Some (given_cost score cost)))"
    by (simp add: beam_candidates_def)
  ultimately have "\<forall>e \<in> set (all_entries score cost bud bw max_iters). consistent score e"
    unfolding all_entries_def search_generations_def by (rule beam_generations_consistent)
  then show "e \<in> set (all_entries score cost bud bw max_iters) \<Longrightarrow> consistent score e" by blast
qed


lemma beam_best_total_score:
  assumes al: "aligned score cost"
    and ex: "\<exists>e \<in> set (all_entries score cost bud bw max_iters). 0 < entry_score e"
  shows "\<exists>i. first_top (all_entries score cost bud bw max_iters) i \<and>
            beam_search_pair_selection sort_impl score cost bud bw max_iters =
              Inr (entry_sel (all_entries score cost bud bw max_iters ! i),
                   Some (total_score score (entry_sel (all_entries score cost bud bw max_iters ! i))))"
proof -
  let ?all = "all_entries score cost bud bw max_iters"
  obtain i where i: "first_top ?all i"
    "beam_search_pair_selection sort_impl score cost bud bw max_iters =
       Inr (entry_sel (?all ! i), Some (entry_score (?all ! i)))"
    using beam_best_entry [OF al ex, of sort_impl] by blast
  have "i < length ?all" using i(1) unfolding first_top_def by simp
  then have "?all ! i \<in> set ?all" by simp
  then have "entry_score (?all ! i) = total_score score (entry_sel (?all ! i))"
    using all_entries_consistent [of "?all ! i" score cost bud bw max_iters]
    by (simp add: consistent_def)
  then show ?thesis using i by auto
qed

text \<open>
  C4 (amended). For a sort that returns elements of the list it is given:
  \<open>greedy_select_under_budget\<close> returns its selection with the total of the costs
  that the caller gave for the selected cells, each of which is a number. For a cost
  table that is omitted or has every label of the score table: \<open>exhaustive_best_k\<close>,
  with \<open>k\<close> not negative, returns its selection with the total score of the selected
  cells; every entry that \<open>beam_search_pair_selection\<close> makes carries the total score
  of its cells; when some entry has a positive score, the call returns the cells of the
  first entry of greatest score among all entries made, with their total score; when
  none has, it returns what \<open>greedy_select_under_budget\<close> returns.
\<close>

theorem selectors_scalar_result:
  assumes "\<forall>ys. set (sort_impl ys) \<subseteq> set ys"
  shows
   "snd (greedy_select_under_budget sort_impl score cost bud) =
      Some (total_cost cost (fst (greedy_select_under_budget sort_impl score cost bud))) \<and>
    (\<forall>ab \<in> set (fst (greedy_select_under_budget sort_impl score cost bud)).
       cost_at cost ab \<noteq> None) \<and>
    (aligned score cost \<and> 0 \<le> k \<longrightarrow>
       (\<exists>sel. exhaustive_best_k score cost k bud = Inr (sel, total_score score sel))) \<and>
    (aligned score cost \<longrightarrow>
       (\<forall>e \<in> set (all_entries score cost bud bw max_iters).
          entry_score e = total_score score (entry_sel e)) \<and>
       ((\<exists>e \<in> set (all_entries score cost bud bw max_iters). 0 < entry_score e) \<longrightarrow>
          (\<exists>i. first_top (all_entries score cost bud bw max_iters) i \<and>
               beam_search_pair_selection sort_impl score cost bud bw max_iters =
                 Inr (entry_sel (all_entries score cost bud bw max_iters ! i),
                      Some (total_score score
                        (entry_sel (all_entries score cost bud bw max_iters ! i)))))) \<and>
       ((\<forall>e \<in> set (all_entries score cost bud bw max_iters). entry_score e \<le> 0) \<longrightarrow>
          beam_search_pair_selection sort_impl score cost bud bw max_iters =
            Inr (greedy_select_under_budget sort_impl score cost bud)))"
proof -
  let ?all = "all_entries score cost bud bw max_iters"
  note g = greedy_total_cost [OF assms, of score cost bud]
  have g1: "snd (greedy_select_under_budget sort_impl score cost bud) =
      Some (total_cost cost (fst (greedy_select_under_budget sort_impl score cost bud)))"
    using g by (rule conjunct1)
  have g2: "\<forall>ab \<in> set (fst (greedy_select_under_budget sort_impl score cost bud)).
       cost_at cost ab \<noteq> None"
    using g by (rule conjunct2)
  have e: "aligned score cost \<and> 0 \<le> k \<longrightarrow>
       (\<exists>sel. exhaustive_best_k score cost k bud = Inr (sel, total_score score sel))"
    using exhaustive_total_score [of score cost k bud] by blast
  have b: "aligned score cost \<longrightarrow>
       (\<forall>e \<in> set ?all. entry_score e = total_score score (entry_sel e)) \<and>
       ((\<exists>e \<in> set ?all. 0 < entry_score e) \<longrightarrow>
          (\<exists>i. first_top ?all i \<and>
               beam_search_pair_selection sort_impl score cost bud bw max_iters =
                 Inr (entry_sel (?all ! i), Some (total_score score (entry_sel (?all ! i)))))) \<and>
       ((\<forall>e \<in> set ?all. entry_score e \<le> 0) \<longrightarrow>
          beam_search_pair_selection sort_impl score cost bud bw max_iters =
            Inr (greedy_select_under_budget sort_impl score cost bud))"
  proof
    assume al: "aligned score cost"
    have b1: "\<forall>e \<in> set ?all. entry_score e = total_score score (entry_sel e)"
      using all_entries_consistent [of _ score cost bud bw max_iters]
      by (auto simp: consistent_def)
    have b2: "(\<exists>e \<in> set ?all. 0 < entry_score e) \<longrightarrow>
          (\<exists>i. first_top ?all i \<and>
               beam_search_pair_selection sort_impl score cost bud bw max_iters =
                 Inr (entry_sel (?all ! i), Some (total_score score (entry_sel (?all ! i)))))"
      using beam_best_total_score [OF al, of bud bw max_iters sort_impl] by blast
    have b3: "(\<forall>e \<in> set ?all. entry_score e \<le> 0) \<longrightarrow>
          beam_search_pair_selection sort_impl score cost bud bw max_iters =
            Inr (greedy_select_under_budget sort_impl score cost bud)"
      using beam_fallback [OF al, of bud bw max_iters sort_impl] by blast
    show "(\<forall>e \<in> set ?all. entry_score e = total_score score (entry_sel e)) \<and>
       ((\<exists>e \<in> set ?all. 0 < entry_score e) \<longrightarrow>
          (\<exists>i. first_top ?all i \<and>
               beam_search_pair_selection sort_impl score cost bud bw max_iters =
                 Inr (entry_sel (?all ! i), Some (total_score score (entry_sel (?all ! i)))))) \<and>
       ((\<forall>e \<in> set ?all. entry_score e \<le> 0) \<longrightarrow>
          beam_search_pair_selection sort_impl score cost bud bw max_iters =
            Inr (greedy_select_under_budget sort_impl score cost bud))"
      using b1 b2 b3 by (intro conjI)
  qed
  show ?thesis using g1 g2 e b by (intro conjI)
qed

lemma exhaustive32:
  "exhaustive_best_k score32 (Some cost32) 2 (Bounded 10) =
     Inr ([(''A1'', ''B1''), (''A1'', ''B2'')], 18)"
  by (simp add: exhaustive_best_k_def score32_def cost32_def loc_def fits_def fadd_def beats_def
     comb_sel_def comb_ssum_def comb_csum_def numeral_2_eq_2)

lemma beam32:
  "beam_search_pair_selection sort_impl score32 (Some cost32) (Bounded 3) 3 (Some 3) =
     Inr ([(''A1'', ''B1''), (''A1'', ''B2''), (''A2'', ''B1'')], Some 24)"
  by (simp add: beam_search_pair_selection_def beam_eval score32_def cost32_def loc_def
      track_def numeral_3_eq_3)

lemma exhaustive22:
  "exhaustive_best_k score22 (Some cost22t) 2 (Bounded 4) =
     Inr ([(''A1'', ''B1''), (''A1'', ''B2'')], 10)"
  by (simp add: exhaustive_best_k_def score22_def cost22t_def loc_def fits_def fadd_def beats_def
     comb_sel_def comb_ssum_def comb_csum_def numeral_2_eq_2)

lemma total_cost22:
  "total_cost (Some cost22t) [(''A1'', ''B1''), (''A1'', ''B2'')] = 3"
  "total_cost (Some cost22t) [(''A1'', ''B1''), (''A1'', ''B2''), (''A2'', ''B2'')] = 4"
  "total_cost (Some cost22t) [(''A1'', ''B2''), (''A1'', ''B1''), (''A2'', ''B2'')] = 4"
  by (simp_all add: total_cost_def cost_at_def cost22t_def nan_to_num_def)

text \<open>
  C4, as stated, fails: on the tables of the unit tests the exhaustive search returns 18
  with two cells of total cost 2, and the beam search 24 with three cells of total
  cost 3; on the scores \<open>[[5, 5], [3, 1]]\<close> with the costs \<open>[[2, 1], [4, 1]]\<close> and
  budget 4 the exhaustive search returns 10 with two cells of total cost 3, and the beam
  search 11 with three cells of total cost 4.
\<close>

theorem selectors_scalar_counterexample:
  "exhaustive_best_k score32 (Some cost32) 2 (Bounded 10) =
     Inr ([(''A1'', ''B1''), (''A1'', ''B2'')], 18) \<and>
   total_cost (Some cost32) [(''A1'', ''B1''), (''A1'', ''B2'')] = 2 \<and>
   beam_search_pair_selection id score32 (Some cost32) (Bounded 3) 3 (Some 3) =
     Inr ([(''A1'', ''B1''), (''A1'', ''B2''), (''A2'', ''B1'')], Some 24) \<and>
   total_cost (Some cost32) [(''A1'', ''B1''), (''A1'', ''B2''), (''A2'', ''B1'')] = 3 \<and>
   exhaustive_best_k score22 (Some cost22t) 2 (Bounded 4) =
     Inr ([(''A1'', ''B1''), (''A1'', ''B2'')], 10) \<and>
   total_cost (Some cost22t) [(''A1'', ''B1''), (''A1'', ''B2'')] = 3 \<and>
   beam_search_pair_selection id score22 (Some cost22t) (Bounded 4) 2 None =
     Inr ([(''A1'', ''B1''), (''A1'', ''B2''), (''A2'', ''B2'')], Some 11) \<and>
   total_cost (Some cost22t) [(''A1'', ''B1''), (''A1'', ''B2''), (''A2'', ''B2'')] = 4"
proof -
  have c2: "total_cost (Some cost32) [(''A1'', ''B1''), (''A1'', ''B2'')] = 2"
    by (simp add: total_cost_def cost_at_def cost32_def nan_to_num_def)
  have c3: "total_cost (Some cost32) [(''A1'', ''B1''), (''A1'', ''B2''), (''A2'', ''B1'')] = 3"
    by (simp add: total_cost_def cost_at_def cost32_def nan_to_num_def)
  show ?thesis
    using exhaustive32 c2 beam32 [of id] c3 exhaustive22 total_cost22(1) beam22 [of id]
      total_cost22(2)
    by (intro conjI)
qed

text \<open>
  On the scores \<open>[[5, 5], [3, 1]]\<close> with the costs \<open>[[2, 1], [4, 1]]\<close> and budget 4:
  the greedy selector returns three cells with their total cost 4, the exhaustive
  search the best pair with its total score 10, and the beam search of width 2 the entry
  of score 11, the ninth it makes, with the total score of its cells. On the score
  \<open>[[-1]]\<close> with the cost \<open>[[2]]\<close> the only entry is not positive and the beam
  search returns the greedy result, the cell with its cost 2.
\<close>

theorem selectors_scalar_result_witness:
  "aligned score22 (Some cost22t) \<and> (0::int) \<le> 2 \<and>
   greedy_select_under_budget id score22 (Some cost22t) (Bounded 4) =
     ([(''A1'', ''B2''), (''A1'', ''B1''), (''A2'', ''B2'')], Some 4) \<and>
   snd (greedy_select_under_budget id score22 (Some cost22t) (Bounded 4)) =
     Some (total_cost (Some cost22t) [(''A1'', ''B2''), (''A1'', ''B1''), (''A2'', ''B2'')]) \<and>
   cost_at (Some cost22t) (''A1'', ''B1'') = Some 2 \<and>
   cost_at (Some cost22t) (''A2'', ''B1'') = Some 4 \<and>
   exhaustive_best_k score22 (Some cost22t) 2 (Bounded 4) =
     Inr ([(''A1'', ''B1''), (''A1'', ''B2'')],
          total_score score22 [(''A1'', ''B1''), (''A1'', ''B2'')]) \<and>
   total_score score22 [(''A1'', ''B1''), (''A1'', ''B2'')] = 10 \<and>
   all_entries score22 (Some cost22t) (Bounded 4) 2 None ! 8 =
     ([(''A1'', ''B1''), (''A1'', ''B2''), (''A2'', ''B2'')], 11, Some 4) \<and>
   entry_score (all_entries score22 (Some cost22t) (Bounded 4) 2 None ! 8) =
     total_score score22 [(''A1'', ''B1''), (''A1'', ''B2''), (''A2'', ''B2'')] \<and>
   beam_search_pair_selection id score22 (Some cost22t) (Bounded 4) 2 None =
     Inr ([(''A1'', ''B1''), (''A1'', ''B2''), (''A2'', ''B2'')], Some 11) \<and>
   aligned score11 (Some (cost11 2)) \<and>
   all_entries score11 (Some (cost11 2)) Unbounded 5 None = [([(''A1'', ''B1'')], - 1, Some 2)] \<and>
   beam_search_pair_selection id score11 (Some (cost11 2)) Unbounded 5 None =
     Inr ([(''A1'', ''B1'')], Some (total_cost (Some (cost11 2)) [(''A1'', ''B1'')])) \<and>
   total_cost (Some (cost11 2)) [(''A1'', ''B1'')] = 2"
proof -
  have perm: "\<forall>ys. set (id ys) \<subseteq> set ys" by simp
  note t22 = selectors_scalar_result [OF perm, of score22 "Some cost22t" "Bounded 4" 2 2 None]
  note t11 = selectors_scalar_result [OF perm, of score11 "Some (cost11 2)" Unbounded 0 5 None]
  have al22: "aligned score22 (Some cost22t)" by (simp add: aligned_def score22_def cost22t_def)
  have al11: "aligned score11 (Some (cost11 2))" by (simp add: aligned_def score11_def cost11_def)
  have "snd (greedy_select_under_budget id score22 (Some cost22t) (Bounded 4)) =
      Some (total_cost (Some cost22t)
        (fst (greedy_select_under_budget id score22 (Some cost22t) (Bounded 4))))"
    using t22 by (rule conjunct1)
  then have g: "snd (greedy_select_under_budget id score22 (Some cost22t) (Bounded 4)) =
     Some (total_cost (Some cost22t) [(''A1'', ''B2''), (''A1'', ''B1''), (''A2'', ''B2'')])"
    by (simp add: greedy22)
  have ca: "cost_at (Some cost22t) (''A1'', ''B1'') = Some 2"
    "cost_at (Some cost22t) (''A2'', ''B1'') = Some 4"
    by (simp_all add: cost_at_def cost22t_def)
  have ts2: "total_score score22 [(''A1'', ''B1''), (''A1'', ''B2'')] = 10"
    by (simp add: total_score_def score22_def nan_to_num_def)
  have ex: "exhaustive_best_k score22 (Some cost22t) 2 (Bounded 4) =
     Inr ([(''A1'', ''B1''), (''A1'', ''B2'')],
          total_score score22 [(''A1'', ''B1''), (''A1'', ''B2'')])"
    by (simp add: exhaustive22 ts2)
  have all22: "all_entries score22 (Some cost22t) (Bounded 4) 2 None ! 8 =
     ([(''A1'', ''B1''), (''A1'', ''B2''), (''A2'', ''B2'')], 11, Some 4)"
    by (simp add: all_entries_def gens22)
  have mem: "all_entries score22 (Some cost22t) (Bounded 4) 2 None ! 8
      \<in> set (all_entries score22 (Some cost22t) (Bounded 4) 2 None)"
    by (rule nth_mem) (simp add: all_entries_def gens22)
  have "\<forall>e \<in> set (all_entries score22 (Some cost22t) (Bounded 4) 2 None).
      entry_score e = total_score score22 (entry_sel e)"
    by (rule t22 [THEN conjunct2, THEN conjunct2, THEN conjunct2, THEN mp, OF al22,
          THEN conjunct1])
  then have "entry_score (all_entries score22 (Some cost22t) (Bounded 4) 2 None ! 8) =
      total_score score22 (entry_sel (all_entries score22 (Some cost22t) (Bounded 4) 2 None ! 8))"
    using mem by blast
  then have es: "entry_score (all_entries score22 (Some cost22t) (Bounded 4) 2 None ! 8) =
     total_score score22 [(''A1'', ''B1''), (''A1'', ''B2''), (''A2'', ''B2'')]"
    by (simp add: all22 entry_sel_def)
  have "(\<forall>e \<in> set (all_entries score11 (Some (cost11 2)) Unbounded 5 None). entry_score e \<le> 0) \<longrightarrow>
      beam_search_pair_selection id score11 (Some (cost11 2)) Unbounded 5 None =
        Inr (greedy_select_under_budget id score11 (Some (cost11 2)) Unbounded)"
    by (rule t11 [THEN conjunct2, THEN conjunct2, THEN conjunct2, THEN mp, OF al11,
          THEN conjunct2, THEN conjunct2])
  then have "beam_search_pair_selection id score11 (Some (cost11 2)) Unbounded 5 None =
        Inr (greedy_select_under_budget id score11 (Some (cost11 2)) Unbounded)"
    by (simp add: all11 entry_score_def)
  moreover have tc: "total_cost (Some (cost11 2)) [(''A1'', ''B1'')] = 2"
    by (simp add: total_cost_def cost_at_def cost11_def nan_to_num_def)
  ultimately have b11: "beam_search_pair_selection id score11 (Some (cost11 2)) Unbounded 5 None =
     Inr ([(''A1'', ''B1'')], Some (total_cost (Some (cost11 2)) [(''A1'', ''B1'')]))"
    by (simp add: greedy11)
  have z: "(0::int) \<le> 2" by simp
  show ?thesis
    using al22 z greedy22 [of id] g ca ex ts2 all22 es beam22 [of id] al11 all11 b11 tc
    by (intro conjI)
qed
section \<open>Properties of the interaction matrix\<close>


















section \<open>Properties of bootstrap.py\<close>

lemma draw_replicates_length: "length (fst (draw_replicates stat arr i rng)) = i"
proof (induction i arbitrary: rng)
  case 0
  then show ?case by simp
next
  case (Suc i)
  obtain idx rng' where a: "integers (length arr) (length arr) rng = (idx, rng')"
    by (cases "integers (length arr) (length arr) rng")
  obtain rest rng'' where b: "draw_replicates stat arr i rng' = (rest, rng'')"
    by (cases "draw_replicates stat arr i rng'")
  have "length rest = i" using Suc.IH [of rng'] b by simp
  then show ?case using a b by simp
qed

lemma boot_groups_result:
  assumes "0 \<le> n_boot"
  shows "\<exists>m. boot_groups stat n_boot gs rng = Inr m \<and> map fst m = map fst gs \<and>
           (\<forall>kv \<in> set m. length (snd kv) = nat n_boot) \<and>
           (\<forall>g \<in> set gs. finite_values (snd g) = [] \<longrightarrow>
              (fst g, replicate (nat n_boot) None) \<in> set m)"
proof (induction gs arbitrary: rng)
  case Nil
  then show ?case by simp
next
  case (Cons g gs)
  obtain key series where g: "g = (key, series)" by (cases g)
  show ?case
  proof (cases "finite_values series = []")
    case True
    obtain m where m: "boot_groups stat n_boot gs rng = Inr m" "map fst m = map fst gs"
      "\<forall>kv \<in> set m. length (snd kv) = nat n_boot"
      "\<forall>g \<in> set gs. finite_values (snd g) = [] \<longrightarrow> (fst g, replicate (nat n_boot) None) \<in> set m"
      using Cons.IH [of rng] by blast
    have "boot_groups stat n_boot (g # gs) rng = Inr ((key, replicate (nat n_boot) None) # m)"
      using assms True m(1) by (simp add: g)
    then show ?thesis using m g by auto
  next
    case False
    obtain reps rng' where d: "draw_replicates stat (finite_values series) (nat n_boot) rng = (reps, rng')"
      by (cases "draw_replicates stat (finite_values series) (nat n_boot) rng")
    then have len: "length reps = nat n_boot"
      using draw_replicates_length [of stat "finite_values series" "nat n_boot" rng] by simp
    obtain m where m: "boot_groups stat n_boot gs rng' = Inr m" "map fst m = map fst gs"
      "\<forall>kv \<in> set m. length (snd kv) = nat n_boot"
      "\<forall>g \<in> set gs. finite_values (snd g) = [] \<longrightarrow> (fst g, replicate (nat n_boot) None) \<in> set m"
      using Cons.IH [of rng'] by blast
    have "boot_groups stat n_boot (g # gs) rng = Inr ((key, reps) # m)"
      using assms False m(1) d by (simp add: g)
    then show ?thesis using m g len False by auto
  qed
qed

lemma map_fst_tagged: "map fst (map (\<lambda>k. (k, f k)) xs) = xs"
  by (induction xs) simp_all

lemma groupby_keys: "map fst (groupby df) = sort (remdups (map obs_key df))"
  unfolding groupby_def by (rule map_fst_tagged)

lemma finite_values_empty: "finite_values vs = [] \<longleftrightarrow> (\<forall>v \<in> set vs. v = None)"
proof (induction vs)
  case Nil
  then show ?case by (simp add: finite_values_def map_filter_simps)
next
  case (Cons v vs)
  then show ?case by (cases v) (simp_all add: finite_values_def map_filter_simps)
qed

lemma groupby_all_missing:
  assumes "k \<in> obs_key ` set df" and "\<forall>r \<in> set df. obs_key r = k \<longrightarrow> obs_value r = None"
  shows "\<exists>g \<in> set (groupby df). fst g = k \<and> finite_values (snd g) = []"
proof -
  let ?g = "(k, map obs_value (filter (\<lambda>r. obs_key r = k) df))"
  have "?g \<in> set (groupby df)" using assms(1) by (auto simp: groupby_def)
  moreover have "finite_values (snd ?g) = []"
    using assms(2) by (auto simp: finite_values_empty)
  ultimately show ?thesis by force
qed

lemma pad_nan_length: "length v \<le> n \<Longrightarrow> length (pad_nan n v) = n"
  by (simp add: pad_nan_def)

lemma to_dataframe_rows:
  assumes "row \<in> set (bootstrap_to_dataframe boot_dict la lb)"
  shows "length (snd row) = fold max (map (\<lambda>kv. length (snd kv)) boot_dict) 0"
proof -
  let ?n = "fold max (map (\<lambda>kv. length (snd kv)) boot_dict) 0"
  let ?df = "map (\<lambda>kv. (fst kv, pad_nan ?n (snd kv))) boot_dict"
  have ne: "boot_dict \<noteq> []"
  proof
    assume "boot_dict = []"
    then have "bootstrap_to_dataframe boot_dict la lb = []"
      by (simp add: bootstrap_to_dataframe_def)
    then show False using assms by simp
  qed
  have df: "length (snd r) = ?n" if "r \<in> set ?df" for r
  proof -
    from that obtain kv where kv: "kv \<in> set boot_dict" "r = (fst kv, pad_nan ?n (snd kv))"
      by (metis (no_types, lifting) imageE list.set_map)
    have "length (snd kv) \<in> set (map (\<lambda>kv. length (snd kv)) boot_dict)" using kv(1) by simp
    then have "length (snd kv) \<le> ?n" by (rule fold_max_upper)
    then have "length (pad_nan ?n (snd kv)) = ?n" by (rule pad_nan_length)
    then show ?thesis unfolding kv(2) by simp
  qed
  have re: "length (snd r) = ?n" if "r \<in> set (reindex_rows ?n ?df mi)" for r mi
  proof -
    from that obtain k where k: "r = (k, case map_of ?df k of None \<Rightarrow> replicate ?n None | Some v \<Rightarrow> v)"
      unfolding reindex_rows_def by (metis (no_types, lifting) imageE list.set_map)
    show ?thesis
    proof (cases "map_of ?df k")
      case None
      then show ?thesis unfolding k by simp
    next
      case (Some v)
      then have "(k, v) \<in> set ?df" by (rule map_of_SomeD)
      then have "length (snd (k, v)) = ?n" by (rule df)
      then show ?thesis unfolding k Some by simp
    qed
  qed
  have "bootstrap_to_dataframe boot_dict la lb = ?df \<or>
        (\<exists>mi. bootstrap_to_dataframe boot_dict la lb = reindex_rows ?n ?df mi)"
  proof (cases la)
    case None
    then show ?thesis using ne by (simp add: bootstrap_to_dataframe_def Let_def)
  next
    case (Some xs)
    show ?thesis
    proof (cases lb)
      case None
      then show ?thesis using ne Some by (simp add: bootstrap_to_dataframe_def Let_def)
    next
      case (Some ys)
      then have "bootstrap_to_dataframe boot_dict la lb = reindex_rows ?n ?df (List.product xs ys)"
        using ne \<open>la = Some xs\<close> by (simp add: bootstrap_to_dataframe_def Let_def)
      then show ?thesis by blast
    qed
  qed
  then show ?thesis
  proof
    assume "bootstrap_to_dataframe boot_dict la lb = ?df"
    then have "row \<in> set ?df" using assms by simp
    then show ?thesis by (rule df)
  next
    assume "\<exists>mi. bootstrap_to_dataframe boot_dict la lb = reindex_rows ?n ?df mi"
    then obtain mi where "bootstrap_to_dataframe boot_dict la lb = reindex_rows ?n ?df mi" by blast
    then have "row \<in> set (reindex_rows ?n ?df mi)" using assms by simp
    then show ?thesis by (rule re)
  qed
qed

lemma to_dataframe_missing_cell:
  assumes "boot_dict \<noteq> []" and "a \<in> set la" and "b \<in> set lb"
    and "(a, b) \<notin> fst ` set boot_dict"
  shows "((a, b), replicate (fold max (map (\<lambda>kv. length (snd kv)) boot_dict) 0) None)
           \<in> set (bootstrap_to_dataframe boot_dict (Some la) (Some lb))"
proof -
  let ?n = "fold max (map (\<lambda>kv. length (snd kv)) boot_dict) 0"
  let ?df = "map (\<lambda>kv. (fst kv, pad_nan ?n (snd kv))) boot_dict"
  have "(a, b) \<notin> fst ` set ?df" using assms(4) by force
  then have "map_of ?df (a, b) = None" by (simp add: map_of_eq_None_iff)
  moreover have "(a, b) \<in> set (List.product la lb)" using assms(2,3) by simp
  ultimately have "((a, b), replicate ?n None) \<in> set (reindex_rows ?n ?df (List.product la lb))"
    unfolding reindex_rows_def by force
  then show ?thesis using assms(1) by (simp add: bootstrap_to_dataframe_def Let_def)
qed


text \<open>
  The frame made from a mapping: every replicate set keeps its values and is filled up
  with NaN at the end to the longest length. With both lists of levels the rows are the
  pairs of the two lists, a row of NaN for a pair that is not a key. An empty mapping
  gives the frame without rows, whatever the lists.
\<close>

lemma to_dataframe_empty: "bootstrap_to_dataframe [] la lb = []"
  by (simp add: bootstrap_to_dataframe_def)

lemma to_dataframe_padded:
  assumes "boot_dict \<noteq> []" and "la = None \<or> lb = None"
  shows "bootstrap_to_dataframe boot_dict la lb =
     map (\<lambda>kv. (fst kv,
            snd kv @ replicate (fold max (map (\<lambda>kv. length (snd kv)) boot_dict) 0 - length (snd kv)) None))
       boot_dict"
  using assms by (auto simp: bootstrap_to_dataframe_def pad_nan_def Let_def split: option.splits)

lemma map_of_padded:
  "map_of (map (\<lambda>kv. (fst kv, f (snd kv))) d) k = map_option f (map_of d k)"
  by (induction d) auto

lemma to_dataframe_reindexed:
  assumes "boot_dict \<noteq> []"
  shows "bootstrap_to_dataframe boot_dict (Some la) (Some lb) =
     map (\<lambda>k. (k, case map_of boot_dict k of
                     None \<Rightarrow> replicate (fold max (map (\<lambda>kv. length (snd kv)) boot_dict) 0) None
                   | Some v \<Rightarrow>
                       v @ replicate (fold max (map (\<lambda>kv. length (snd kv)) boot_dict) 0 - length v) None))
       (List.product la lb)"
proof -
  let ?n = "fold max (map (\<lambda>kv. length (snd kv)) boot_dict) 0"
  have "(case map_of (map (\<lambda>kv. (fst kv, pad_nan ?n (snd kv))) boot_dict) k of
           None \<Rightarrow> replicate ?n None | Some v \<Rightarrow> v) =
        (case map_of boot_dict k of
           None \<Rightarrow> replicate ?n None | Some v \<Rightarrow> v @ replicate (?n - length v) None)" for k
    unfolding map_of_padded by (cases "map_of boot_dict k") (simp_all add: pad_nan_def)
  then show ?thesis
    using assms by (simp add: bootstrap_to_dataframe_def reindex_rows_def Let_def)
qed

lemma fold_max_all_equal:
  assumes "xs \<noteq> []" and "\<forall>x \<in> set xs. x = (n::nat)"
  shows "fold max xs 0 = n"
proof -
  obtain x where "x \<in> set xs" using assms(1) by (cases xs) auto
  then have "n \<in> set xs" using assms(2) by auto
  then have ge: "n \<le> fold max xs 0" by (rule fold_max_upper)
  have "fold max xs 0 \<in> set (0 # xs)" by (rule fold_max_mem)
  then have "fold max xs 0 = 0 \<or> fold max xs 0 = n" using assms(2) by auto
  then show ?thesis using ge by auto
qed

lemma to_dataframe_same:
  assumes "\<forall>kv \<in> set m. length (snd kv) = n"
  shows "bootstrap_to_dataframe m None None = m"
proof (cases "m = []")
  case True
  then show ?thesis by (simp add: to_dataframe_empty)
next
  case False
  have "fold max (map (\<lambda>kv. length (snd kv)) m) 0 = n"
    using False assms by (intro fold_max_all_equal) auto
  then have "bootstrap_to_dataframe m None None = map (\<lambda>kv. (fst kv, snd kv @ [])) m"
    using assms to_dataframe_padded [OF False, of None None]
    by (simp cong: map_cong)
  then show ?thesis by simp
qed

lemma bootstrap_cell_statistics_result:
  assumes "0 \<le> n_boot"
  shows "\<exists>m. bootstrap_cell_statistics df stat n_boot random_state default_rng = Inr m \<and>
     map fst m = sort (remdups (map obs_key df)) \<and>
     (\<forall>kv \<in> set m. length (snd kv) = nat n_boot) \<and>
     (\<forall>k \<in> obs_key ` set df.
        (\<forall>r \<in> set df. obs_key r = k \<longrightarrow> obs_value r = None) \<longrightarrow>
        map_of m k = Some (replicate (nat n_boot) None)) \<and>
     (\<forall>k. k \<notin> obs_key ` set df \<longrightarrow> map_of m k = None)"
proof -
  let ?rng = "rng_from_seed default_rng random_state"
  obtain m where m: "boot_groups stat n_boot (groupby df) ?rng = Inr m"
    "map fst m = map fst (groupby df)"
    "\<forall>kv \<in> set m. length (snd kv) = nat n_boot"
    "\<forall>g \<in> set (groupby df). finite_values (snd g) = [] \<longrightarrow>
       (fst g, replicate (nat n_boot) None) \<in> set m"
    using boot_groups_result [OF assms, of stat "groupby df" ?rng] by blast
  have keys: "map fst m = sort (remdups (map obs_key df))" using m(2) groupby_keys by simp
  then have dist: "distinct (map fst m)" by simp
  have kset: "fst ` set m = obs_key ` set df"
  proof -
    have "set (map fst m) = set (map obs_key df)" unfolding keys by simp
    then show ?thesis by simp
  qed
  have missing: "\<forall>k \<in> obs_key ` set df.
        (\<forall>r \<in> set df. obs_key r = k \<longrightarrow> obs_value r = None) \<longrightarrow>
        map_of m k = Some (replicate (nat n_boot) None)"
  proof (intro ballI impI)
    fix k assume k: "k \<in> obs_key ` set df"
      and all: "\<forall>r \<in> set df. obs_key r = k \<longrightarrow> obs_value r = None"
    then obtain g where "g \<in> set (groupby df)" "fst g = k" "finite_values (snd g) = []"
      using groupby_all_missing [of k df] by blast
    then have "(k, replicate (nat n_boot) None) \<in> set m" using m(4) by blast
    then show "map_of m k = Some (replicate (nat n_boot) None)"
      using dist by (rule map_of_is_SomeI [rotated])
  qed
  have absent: "\<forall>k. k \<notin> obs_key ` set df \<longrightarrow> map_of m k = None"
    using kset by (simp add: map_of_eq_None_iff)
  have "bootstrap_cell_statistics df stat n_boot random_state default_rng = Inr m"
    using m(1) by (simp add: bootstrap_cell_statistics_def)
  then show ?thesis using keys m(3) missing absent by blast
qed

text \<open>
  C6 (amended). For a replicate count that is not negative, \<open>bootstrap_cell_statistics\<close>
  returns a mapping, with no error, whose keys are the pairs of levels that occur in at
  least one row, in sorted order and each once. Every replicate set has the length
  \<open>n_boot\<close>. A pair whose rows all lack the value has \<open>n_boot\<close> NaN. A pair that
  occurs in no row, also one of the cross product of the levels that occur, is not a key.
  \<open>bootstrap_to_dataframe\<close> makes the rows of a mapping that is not empty from its
  replicate sets, each with its values and then NaN up to the longest length; the
  mapping returned here comes back as it is, its sets being of one length. When both
  lists of levels are given and the mapping is not empty, the rows are the pairs of the
  two lists, each with the padded replicate set of the pair or, for a pair that is not a
  key, with NaN only; so a pair that occurs in no row of the observations has a row of
  \<open>n_boot\<close> NaN. For an empty mapping the frame has no rows, whatever the lists.
\<close>

theorem bootstrap_replicate_sets:
  fixes df :: "('a::linorder, 'b::linorder) observations"
  assumes "0 \<le> n_boot"
  shows "\<exists>m. bootstrap_cell_statistics df stat n_boot random_state default_rng = Inr m \<and>
     map fst m = sort (remdups (map obs_key df)) \<and>
     (\<forall>kv \<in> set m. length (snd kv) = nat n_boot) \<and>
     (\<forall>k \<in> obs_key ` set df.
        (\<forall>r \<in> set df. obs_key r = k \<longrightarrow> obs_value r = None) \<longrightarrow>
        map_of m k = Some (replicate (nat n_boot) None)) \<and>
     (\<forall>k. k \<notin> obs_key ` set df \<longrightarrow> map_of m k = None) \<and>
     (\<forall>la lb. \<forall>row \<in> set (bootstrap_to_dataframe m la lb). length (snd row) = nat n_boot) \<and>
     (\<forall>la lb a b. m \<noteq> [] \<and> a \<in> set la \<and> b \<in> set lb \<and> (a, b) \<notin> obs_key ` set df \<longrightarrow>
        ((a, b), replicate (nat n_boot) None) \<in> set (bootstrap_to_dataframe m (Some la) (Some lb))) \<and>
     (\<forall>d la lb. \<forall>row \<in> set (bootstrap_to_dataframe (d :: (('a \<times> 'b) \<times> pyfloat list) list) la lb).
        length (snd row) = fold max (map (\<lambda>kv. length (snd kv)) d) 0) \<and>
     bootstrap_to_dataframe m None None = m \<and>
     (\<forall>d la lb. (d :: (('a \<times> 'b) \<times> pyfloat list) list) \<noteq> [] \<and> (la = None \<or> lb = None) \<longrightarrow>
        bootstrap_to_dataframe d la lb =
          map (\<lambda>kv. (fst kv,
                 snd kv @ replicate (fold max (map (\<lambda>kv. length (snd kv)) d) 0 - length (snd kv)) None))
            d) \<and>
     (\<forall>d la lb. (d :: (('a \<times> 'b) \<times> pyfloat list) list) \<noteq> [] \<longrightarrow>
        bootstrap_to_dataframe d (Some la) (Some lb) =
          map (\<lambda>k. (k, case map_of d k of
                          None \<Rightarrow> replicate (fold max (map (\<lambda>kv. length (snd kv)) d) 0) None
                        | Some v \<Rightarrow>
                            v @ replicate (fold max (map (\<lambda>kv. length (snd kv)) d) 0 - length v) None))
            (List.product la lb)) \<and>
     (\<forall>la lb. bootstrap_to_dataframe ([] :: (('a \<times> 'b) \<times> pyfloat list) list) la lb = [])"
proof -
  obtain m where m: "bootstrap_cell_statistics df stat n_boot random_state default_rng = Inr m"
     "map fst m = sort (remdups (map obs_key df))"
     "\<forall>kv \<in> set m. length (snd kv) = nat n_boot"
     "\<forall>k \<in> obs_key ` set df.
        (\<forall>r \<in> set df. obs_key r = k \<longrightarrow> obs_value r = None) \<longrightarrow>
        map_of m k = Some (replicate (nat n_boot) None)"
     "\<forall>k. k \<notin> obs_key ` set df \<longrightarrow> map_of m k = None"
    using bootstrap_cell_statistics_result [OF assms, of df stat random_state default_rng] by blast
  have pad: "\<forall>d la lb. \<forall>row \<in> set (bootstrap_to_dataframe d la lb).
        length (snd row) = fold max (map (\<lambda>kv. length (snd kv)) (d :: (('a \<times> 'b) \<times> pyfloat list) list)) 0"
    using to_dataframe_rows by blast
  have n: "fold max (map (\<lambda>kv. length (snd kv)) m) 0 = nat n_boot" if "m \<noteq> []"
    using that m(3) by (intro fold_max_all_equal) auto
  have rows: "\<forall>la lb. \<forall>row \<in> set (bootstrap_to_dataframe m la lb). length (snd row) = nat n_boot"
  proof (intro allI ballI)
    fix la lb row assume r: "row \<in> set (bootstrap_to_dataframe m la lb)"
    then have "m \<noteq> []" by (auto simp: bootstrap_to_dataframe_def)
    then show "length (snd row) = nat n_boot" using to_dataframe_rows [OF r] n by simp
  qed
  have kset: "fst ` set m = obs_key ` set df"
  proof -
    have "set (map fst m) = set (map obs_key df)" unfolding m(2) by simp
    then show ?thesis by simp
  qed
  have fill: "\<forall>la lb a b. m \<noteq> [] \<and> a \<in> set la \<and> b \<in> set lb \<and> (a, b) \<notin> obs_key ` set df \<longrightarrow>
        ((a, b), replicate (nat n_boot) None) \<in> set (bootstrap_to_dataframe m (Some la) (Some lb))"
  proof (intro allI impI)
    fix la lb a b
    assume h: "m \<noteq> [] \<and> a \<in> set la \<and> b \<in> set lb \<and> (a, b) \<notin> obs_key ` set df"
    then have "(a, b) \<notin> fst ` set m" using kset by simp
    then have "((a, b), replicate (fold max (map (\<lambda>kv. length (snd kv)) m) 0) None)
           \<in> set (bootstrap_to_dataframe m (Some la) (Some lb))"
      using h by (intro to_dataframe_missing_cell) auto
    then show "((a, b), replicate (nat n_boot) None) \<in> set (bootstrap_to_dataframe m (Some la) (Some lb))"
      using n h by simp
  qed
  have same: "bootstrap_to_dataframe m None None = m"
    using m(3) by (rule to_dataframe_same)
  have keep: "\<forall>d la lb. (d :: (('a \<times> 'b) \<times> pyfloat list) list) \<noteq> [] \<and> (la = None \<or> lb = None) \<longrightarrow>
        bootstrap_to_dataframe d la lb =
          map (\<lambda>kv. (fst kv,
                 snd kv @ replicate (fold max (map (\<lambda>kv. length (snd kv)) d) 0 - length (snd kv)) None))
            d"
    using to_dataframe_padded by blast
  have reidx: "\<forall>d la lb. (d :: (('a \<times> 'b) \<times> pyfloat list) list) \<noteq> [] \<longrightarrow>
        bootstrap_to_dataframe d (Some la) (Some lb) =
          map (\<lambda>k. (k, case map_of d k of
                          None \<Rightarrow> replicate (fold max (map (\<lambda>kv. length (snd kv)) d) 0) None
                        | Some v \<Rightarrow>
                            v @ replicate (fold max (map (\<lambda>kv. length (snd kv)) d) 0 - length v) None))
            (List.product la lb)"
    using to_dataframe_reindexed by blast
  have empty: "\<forall>la lb. bootstrap_to_dataframe ([] :: (('a \<times> 'b) \<times> pyfloat list) list) la lb = []"
    by (simp add: to_dataframe_empty)
  show ?thesis using m rows fill pad same keep reidx empty by (intro exI [of _ m] conjI)
qed


lemmas boot_eval =
  bootstrap_cell_statistics_def groupby_def obs_key_def obs_value_def rng_from_seed_def
  zero_rng_def integers_def finite_values_def map_filter_simps np_mean_def Let_def

lemma boot_obs2:
  "bootstrap_cell_statistics obs2 np_mean 2 (Some 0) zero_rng =
     Inr [((''A1'', ''B1''), [Some 1, Some 1]), ((''A2'', ''B2''), [Some 2, Some 2])]"
  by (simp add: boot_eval obs2_def numeral_2_eq_2)

lemma boot_obs_nan:
  "bootstrap_cell_statistics obs_nan np_mean 2 (Some 0) zero_rng =
     Inr [((''A1'', ''B1''), [Some 1, Some 1]), ((''A2'', ''B2''), [None, None])]"
  by (simp add: boot_eval obs_nan_def numeral_2_eq_2)

text \<open>
  C6, as stated, fails: with observations of (A1, B1) and (A2, B2) only, the cell
  (A1, B2) of the level universe is not a key of the mapping.
\<close>

theorem bootstrap_unobserved_cell_counterexample:
  "(''A1'', ''B2'') \<in> set (List.product (levels_a obs2) (levels_b obs2)) \<and>
   bootstrap_cell_statistics obs2 np_mean 2 (Some 0) zero_rng =
     Inr [((''A1'', ''B1''), [Some 1, Some 1]), ((''A2'', ''B2''), [Some 2, Some 2])] \<and>
   map_of [((''A1'', ''B1''), [Some (1::real), Some 1]), ((''A2'', ''B2''), [Some 2, Some 2])]
     (''A1'', ''B2'') = None"
proof -
  have "(''A1'', ''B2'') \<in> set (List.product (levels_a obs2) (levels_b obs2))"
    by (simp add: levels_a_def levels_b_def obs2_def)
  moreover have "map_of [((''A1'', ''B1''), [Some (1::real), Some 1]), ((''A2'', ''B2''), [Some 2, Some 2])]
     (''A1'', ''B2'') = None" by simp
  ultimately show ?thesis using boot_obs2 by (intro conjI)
qed

text \<open>
  With an observation of (A1, B1) and a row of (A2, B2) that lacks the value: (A2, B2)
  maps to two NaN, (A1, B2) is not a key, the frame over both level lists has a row
  of two NaN for it, and the frame without level lists is the mapping. A mapping with
  the sets 1, 2 and 3 becomes the rows 1, 2 and 3, NaN; over both level lists the two
  pairs that are not keys get rows of two NaN. The empty mapping gives no rows.
\<close>

theorem bootstrap_replicate_sets_witness:
  "(0::int) \<le> 2 \<and>
   bootstrap_cell_statistics obs_nan np_mean 2 (Some 0) zero_rng =
     Inr [((''A1'', ''B1''), [Some 1, Some 1]), ((''A2'', ''B2''), [None, None])] \<and>
   (''A2'', ''B2'') \<in> obs_key ` set obs_nan \<and>
   map_of [((''A1'', ''B1''), [Some (1::real), Some 1]), ((''A2'', ''B2''), [None, None])]
     (''A2'', ''B2'') = Some (replicate (nat 2) None) \<and>
   (''A1'', ''B2'') \<notin> obs_key ` set obs_nan \<and>
   map_of [((''A1'', ''B1''), [Some (1::real), Some 1]), ((''A2'', ''B2''), [None, None])]
     (''A1'', ''B2'') = None \<and>
   ((''A1'', ''B2''), replicate (nat 2) None)
     \<in> set (bootstrap_to_dataframe
          [((''A1'', ''B1''), [Some (1::real), Some 1]), ((''A2'', ''B2''), [None, None])]
          (Some [''A1'', ''A2'']) (Some [''B1'', ''B2''])) \<and>
   bootstrap_to_dataframe
     [((''A1'', ''B1''), [Some (1::real), Some 1]), ((''A2'', ''B2''), [None, None])] None None =
     [((''A1'', ''B1''), [Some 1, Some 1]), ((''A2'', ''B2''), [None, None])] \<and>
   bootstrap_to_dataframe
     [((''A1'', ''B1''), [Some (1::real), Some 2]), ((''A2'', ''B2''), [Some 3])] None None =
     [((''A1'', ''B1''), [Some 1, Some 2]), ((''A2'', ''B2''), [Some 3, None])] \<and>
   bootstrap_to_dataframe
     [((''A1'', ''B1''), [Some (1::real), Some 2]), ((''A2'', ''B2''), [Some 3])]
     (Some [''A1'', ''A2'']) (Some [''B1'', ''B2'']) =
     [((''A1'', ''B1''), [Some 1, Some 2]), ((''A1'', ''B2''), [None, None]),
      ((''A2'', ''B1''), [None, None]), ((''A2'', ''B2''), [Some 3, None])] \<and>
   bootstrap_to_dataframe ([] :: ((string \<times> string) \<times> pyfloat list) list)
     (Some [''A1'', ''A2'']) (Some [''B1'', ''B2'']) = []"
proof -
  let ?m = "[((''A1'', ''B1''), [Some (1::real), Some 1]), ((''A2'', ''B2''), [None, None])]"
  let ?d = "[((''A1'', ''B1''), [Some (1::real), Some 2]), ((''A2'', ''B2''), [Some 3])]"
  have z: "(0::int) \<le> 2" by simp
  obtain m where m: "bootstrap_cell_statistics obs_nan np_mean 2 (Some 0) zero_rng = Inr m"
     "\<forall>k \<in> obs_key ` set obs_nan.
        (\<forall>r \<in> set obs_nan. obs_key r = k \<longrightarrow> obs_value r = None) \<longrightarrow>
        map_of m k = Some (replicate (nat 2) None)"
     "\<forall>k. k \<notin> obs_key ` set obs_nan \<longrightarrow> map_of m k = None"
     "\<forall>la lb a b. m \<noteq> [] \<and> a \<in> set la \<and> b \<in> set lb \<and> (a, b) \<notin> obs_key ` set obs_nan \<longrightarrow>
        ((a, b), replicate (nat 2) None) \<in> set (bootstrap_to_dataframe m (Some la) (Some lb))"
     "bootstrap_to_dataframe m None None = m"
     "\<forall>d la lb. (d :: ((string \<times> string) \<times> pyfloat list) list) \<noteq> [] \<and> (la = None \<or> lb = None) \<longrightarrow>
        bootstrap_to_dataframe d la lb =
          map (\<lambda>kv. (fst kv,
                 snd kv @ replicate (fold max (map (\<lambda>kv. length (snd kv)) d) 0 - length (snd kv)) None))
            d"
     "\<forall>d la lb. (d :: ((string \<times> string) \<times> pyfloat list) list) \<noteq> [] \<longrightarrow>
        bootstrap_to_dataframe d (Some la) (Some lb) =
          map (\<lambda>k. (k, case map_of d k of
                          None \<Rightarrow> replicate (fold max (map (\<lambda>kv. length (snd kv)) d) 0) None
                        | Some v \<Rightarrow>
                            v @ replicate (fold max (map (\<lambda>kv. length (snd kv)) d) 0 - length v) None))
            (List.product la lb)"
     "\<forall>la lb. bootstrap_to_dataframe ([] :: ((string \<times> string) \<times> pyfloat list) list) la lb = []"
    using bootstrap_replicate_sets [OF z, of obs_nan np_mean "Some 0" zero_rng]
    by (elim exE conjE) (rule that, assumption+)
  have mm: "m = ?m" using m(1) boot_obs_nan by simp
  have k1: "(''A2'', ''B2'') \<in> obs_key ` set obs_nan" by (simp add: obs_nan_def obs_key_def)
  have k1': "\<forall>r \<in> set obs_nan. obs_key r = (''A2'', ''B2'') \<longrightarrow> obs_value r = None"
    by (simp add: obs_nan_def obs_key_def obs_value_def)
  have k2: "(''A1'', ''B2'') \<notin> obs_key ` set obs_nan" by (simp add: obs_nan_def obs_key_def)
  have r1: "map_of ?m (''A2'', ''B2'') = Some (replicate (nat 2) None)"
    using m(2) k1 k1' unfolding mm by blast
  have r2: "map_of ?m (''A1'', ''B2'') = None" using m(3) k2 unfolding mm by blast
  have "?m \<noteq> [] \<and> ''A1'' \<in> set [''A1'', ''A2''] \<and> ''B2'' \<in> set [''B1'', ''B2''] \<and>
        (''A1'', ''B2'') \<notin> obs_key ` set obs_nan" using k2 by simp
  then have r3: "((''A1'', ''B2''), replicate (nat 2) None)
     \<in> set (bootstrap_to_dataframe ?m (Some [''A1'', ''A2'']) (Some [''B1'', ''B2'']))"
    using m(4) unfolding mm by blast
  have r4: "bootstrap_to_dataframe ?m None None = ?m" using m(5) unfolding mm .
  have "?d \<noteq> [] \<and> ((None :: string list option) = None \<or> (None :: string list option) = None)"
    by simp
  then have "bootstrap_to_dataframe ?d None None =
      map (\<lambda>kv. (fst kv,
             snd kv @ replicate (fold max (map (\<lambda>kv. length (snd kv)) ?d) 0 - length (snd kv)) None))
        ?d"
    using m(6) by blast
  then have r5: "bootstrap_to_dataframe ?d None None =
     [((''A1'', ''B1''), [Some 1, Some 2]), ((''A2'', ''B2''), [Some 3, None])]"
    by (simp add: numeral_2_eq_2)
  have "?d \<noteq> []" by simp
  then have "bootstrap_to_dataframe ?d (Some [''A1'', ''A2'']) (Some [''B1'', ''B2'']) =
      map (\<lambda>k. (k, case map_of ?d k of
                      None \<Rightarrow> replicate (fold max (map (\<lambda>kv. length (snd kv)) ?d) 0) None
                    | Some v \<Rightarrow>
                        v @ replicate (fold max (map (\<lambda>kv. length (snd kv)) ?d) 0 - length v) None))
        (List.product [''A1'', ''A2''] [''B1'', ''B2''])"
    using m(7) by blast
  then have r6: "bootstrap_to_dataframe ?d (Some [''A1'', ''A2'']) (Some [''B1'', ''B2'']) =
     [((''A1'', ''B1''), [Some 1, Some 2]), ((''A1'', ''B2''), [None, None]),
      ((''A2'', ''B1''), [None, None]), ((''A2'', ''B2''), [Some 3, None])]"
    by (simp add: numeral_2_eq_2)
  have r7: "bootstrap_to_dataframe ([] :: ((string \<times> string) \<times> pyfloat list) list)
     (Some [''A1'', ''A2'']) (Some [''B1'', ''B2'']) = []"
    using m(8) by blast
  show ?thesis using z boot_obs_nan k1 r1 k2 r2 r3 r4 r5 r6 r7 by (intro conjI)
qed

subsection \<open>The normal-approximation interval\<close>

lemma map_index: "map (\<lambda>i. g (xs ! i)) [0..<length xs] = map g xs"
  by (rule nth_equalityI) simp_all

lemma ci_frame_rows:
  "ci_frame boot_df (map e boot_df) (map s boot_df)
      (map (\<lambda>i. l (map e boot_df ! i) (map s boot_df ! i)) [0..<length boot_df])
      (map (\<lambda>i. u (map e boot_df ! i) (map s boot_df ! i)) [0..<length boot_df]) =
   map (\<lambda>kr. (fst kr, \<lparr>estimate = e kr, se = s kr,
                         ci_lower = l (e kr) (s kr), ci_upper = u (e kr) (s kr)\<rparr>)) boot_df"
  unfolding ci_frame_def by (rule nth_equalityI) simp_all

lemma compute_bootstrap_ci_se:
  assumes ne: "\<not> boot_empty boot_df" and a0: "0 \<le> alpha" and a2: "alpha \<le> 2"
  shows "compute_bootstrap_ci boot_df alpha ''se'' st =
     (Inr (map (\<lambda>kr. (fst kr,
               \<lparr>estimate = nanmean (snd kr), se = nanstd (snd kr),
                ci_lower = fsub (nanmean (snd kr)) (fmul (sampled_z alpha st) (nanstd (snd kr))),
                ci_upper = fadd (nanmean (snd kr)) (fmul (sampled_z alpha st) (nanstd (snd kr)))\<rparr>))
             boot_df),
      (\<lambda>k. st (k + n_normal_draws)))"
proof -
  have p: "np_percentile (map st [0..<n_normal_draws]) (100 * (1 - alpha / 2)) =
      Inr (quantile_lin (map st [0..<n_normal_draws]) (1 - alpha / 2))"
  proof -
    have "100 * (1 - alpha / 2) / 100 = 1 - alpha / 2" by simp
    moreover have "\<not> (100 * (1 - alpha / 2) < 0 \<or> 100 < 100 * (1 - alpha / 2))"
      using a0 a2 by simp
    ultimately show ?thesis unfolding np_percentile_def by (simp only: if_False)
  qed
  have e: "100 * (1 - alpha / 2) = 100 - 50 * alpha" by simp
  note p' = p [unfolded e]
  have m: "''se'' \<noteq> ''percentile''" by simp
  show ?thesis
    unfolding compute_bootstrap_ci_def Let_def standard_normal_def
    using ne m
    by (simp add: p' sampled_z_def
        ci_frame_rows [where e = "\<lambda>kr. nanmean (snd kr)" and s = "\<lambda>kr. nanstd (snd kr)"
          and l = "\<lambda>x y. fsub x (fmul (fabs (quantile_lin (map st [0..<n_normal_draws]) (1 - alpha / 2))) y)"
          and u = "\<lambda>x y. fadd x (fmul (fabs (quantile_lin (map st [0..<n_normal_draws]) (1 - alpha / 2))) y)"])
qed

lemma sort_replicate: "sort (replicate n (c::real)) = replicate n c"
  by (rule sort_key_id_if_sorted) (simp add: sorted_replicate)

lemma quantile_lin_const:
  assumes n: "0 < n" and q0: "0 \<le> q" and q1: "q \<le> 1"
  shows "quantile_lin (replicate n c) q = Some c"
proof -
  let ?h = "q * real (n - 1)"
  have "?h \<le> 1 * real (n - 1)" using q1 by (intro mult_right_mono) simp_all
  then have "?h \<le> real (n - 1)" by simp
  then have "\<lfloor>?h\<rfloor> \<le> int (n - 1)" by linarith
  then have lo: "nat \<lfloor>?h\<rfloor> < n" using n by linarith
  have hi: "min (nat \<lfloor>?h\<rfloor> + 1) (n - 1) < n" using n by simp
  have ne: "replicate n c \<noteq> []" using n by simp
  show ?thesis
    unfolding quantile_lin_def Let_def sort_replicate
    using ne lo hi by simp
qed

lemma map_const_upt: "(\<forall>k < n. f k = c) \<Longrightarrow> map f [0..<n] = replicate n c"
  by (rule nth_equalityI) simp_all

lemma draws_pos: "0 < n_normal_draws"
  by (simp add: n_normal_draws_def)

lemma sampled_z_const:
  assumes "\<forall>k < n_normal_draws. st k = c" and "0 \<le> alpha" and "alpha \<le> 2"
  shows "sampled_z alpha st = Some \<bar>c\<bar>"
proof -
  have "map st [0..<n_normal_draws] = replicate n_normal_draws c"
    using assms(1) by (rule map_const_upt)
  moreover have "quantile_lin (replicate n_normal_draws c) (1 - alpha / 2) = Some c"
    using draws_pos assms(2,3) by (intro quantile_lin_const) simp_all
  ultimately show ?thesis by (simp add: sampled_z_def fabs_def)
qed

lemma sampled_z_same_draws:
  assumes "\<forall>k < n_normal_draws. st' k = st k"
  shows "sampled_z alpha st' = sampled_z alpha st"
proof -
  have "map st' [0..<n_normal_draws] = map st [0..<n_normal_draws]"
    using assms by (intro map_cong) simp_all
  then show ?thesis by (simp only: sampled_z_def)
qed

lemma stats_boot3:
  "nanmean [Some 0, Some 1, Some 2] = Some 1" "nanstd [Some 0, Some 1, Some 2] = Some 1"
  by (simp_all add: nanmean_def nanstd_def finite_values_def map_filter_simps Let_def)

lemma not_empty_boot3: "\<not> boot_empty boot3"
  by (simp add: boot_empty_def boot3_def)

lemma ci_boot3:
  assumes "\<forall>k < n_normal_draws. st k = c"
  shows "fst (compute_bootstrap_ci boot3 (1 / 20) ''se'' st) =
     Inr [((''A1'', ''B1''),
           \<lparr>estimate = Some 1, se = Some 1, ci_lower = Some (1 - \<bar>c\<bar>), ci_upper = Some (1 + \<bar>c\<bar>)\<rparr>)]"
proof -
  have z: "sampled_z (1 / 20) st = Some \<bar>c\<bar>" using assms by (rule sampled_z_const) simp_all
  show ?thesis
    unfolding compute_bootstrap_ci_se [OF not_empty_boot3, of "1 / 20" st, simplified] z
    by (simp add: boot3_def stats_boot3 fsub_def fadd_def fmul_def)
qed

lemma ambient12_first: "\<forall>k < n_normal_draws. ambient12 k = 1"
  by (simp add: ambient12_def)

lemma ambient12_second:
  "\<forall>k < n_normal_draws. snd (compute_bootstrap_ci boot3 (1 / 20) ''se'' ambient12) k = 2"
  unfolding compute_bootstrap_ci_se [OF not_empty_boot3, of "1 / 20" ambient12, simplified]
  by (simp add: ambient12_def)

text \<open>
  C5 (amended). For a frame of replicates that is not empty and \<open>alpha\<close> from 0 to 2,
  \<open>compute_bootstrap_ci\<close> in the mode \<open>se\<close> returns per row the mean and the
  standard deviation of the replicates and the interval \<open>estimate - z * se\<close> to
  \<open>estimate + z * se\<close>, where \<open>z\<close> is the absolute value of the empirical quantile
  \<open>1 - alpha / 2\<close> of the next hundred thousand draws of the ambient random state,
  which the call consumes. The result is a function of the arguments and of those
  draws: in two ambient states with the same hundred thousand draws to come the call
  returns the same rows. When all those draws are \<open>c\<close>, \<open>z\<close> is \<open>|c|\<close>.
\<close>

theorem bootstrap_ci_se_sampled:
  assumes "\<not> boot_empty boot_df" and "0 \<le> alpha" and "alpha \<le> 2"
  shows "compute_bootstrap_ci boot_df alpha ''se'' st =
     (Inr (map (\<lambda>kr. (fst kr,
               \<lparr>estimate = nanmean (snd kr), se = nanstd (snd kr),
                ci_lower = fsub (nanmean (snd kr)) (fmul (sampled_z alpha st) (nanstd (snd kr))),
                ci_upper = fadd (nanmean (snd kr)) (fmul (sampled_z alpha st) (nanstd (snd kr)))\<rparr>))
             boot_df),
      (\<lambda>k. st (k + n_normal_draws))) \<and>
    sampled_z alpha st = fabs (quantile_lin (map st [0..<n_normal_draws]) (1 - alpha / 2)) \<and>
    (\<forall>c. (\<forall>k < n_normal_draws. st k = c) \<longrightarrow> sampled_z alpha st = Some \<bar>c\<bar>) \<and>
    (\<forall>st'. (\<forall>k < n_normal_draws. st' k = st k) \<longrightarrow>
       fst (compute_bootstrap_ci boot_df alpha ''se'' st') =
       fst (compute_bootstrap_ci boot_df alpha ''se'' st))"
proof -
  have a: "compute_bootstrap_ci boot_df alpha ''se'' st =
     (Inr (map (\<lambda>kr. (fst kr,
               \<lparr>estimate = nanmean (snd kr), se = nanstd (snd kr),
                ci_lower = fsub (nanmean (snd kr)) (fmul (sampled_z alpha st) (nanstd (snd kr))),
                ci_upper = fadd (nanmean (snd kr)) (fmul (sampled_z alpha st) (nanstd (snd kr)))\<rparr>))
             boot_df),
      (\<lambda>k. st (k + n_normal_draws)))"
    using assms by (rule compute_bootstrap_ci_se)
  have b: "sampled_z alpha st = fabs (quantile_lin (map st [0..<n_normal_draws]) (1 - alpha / 2))"
    by (simp add: sampled_z_def)
  have c: "\<forall>c. (\<forall>k < n_normal_draws. st k = c) \<longrightarrow> sampled_z alpha st = Some \<bar>c\<bar>"
    using sampled_z_const [of st _ alpha] assms(2,3) by blast
  have d: "\<forall>st'. (\<forall>k < n_normal_draws. st' k = st k) \<longrightarrow>
       fst (compute_bootstrap_ci boot_df alpha ''se'' st') =
       fst (compute_bootstrap_ci boot_df alpha ''se'' st)"
  proof (intro allI impI)
    fix st' :: ambient
    assume "\<forall>k < n_normal_draws. st' k = st k"
    then have "sampled_z alpha st' = sampled_z alpha st" by (rule sampled_z_same_draws)
    then show "fst (compute_bootstrap_ci boot_df alpha ''se'' st') =
       fst (compute_bootstrap_ci boot_df alpha ''se'' st)"
      unfolding compute_bootstrap_ci_se [OF assms] by simp
  qed
  show ?thesis using a b c d by (intro conjI)
qed

text \<open>
  C5, as stated, fails: a second call with the same arguments, made in the ambient state
  that the first call left, returns another interval.
\<close>

theorem bootstrap_ci_se_ambient_counterexample:
  "fst (compute_bootstrap_ci boot3 (1 / 20) ''se''
         (snd (compute_bootstrap_ci boot3 (1 / 20) ''se'' ambient12)))
     \<noteq> fst (compute_bootstrap_ci boot3 (1 / 20) ''se'' ambient12)"
  unfolding ci_boot3 [OF ambient12_first] ci_boot3 [OF ambient12_second]
  by simp

text \<open>
  For the replicates 0, 1, 2 and draws that are all 1, the interval is 0 to 2, also in
  the ambient state that has 2 after those draws and in the one that has 1 throughout.
\<close>

theorem bootstrap_ci_se_sampled_witness:
  "\<not> boot_empty boot3 \<and> (0::real) \<le> 1 / 20 \<and> (1::real) / 20 \<le> 2 \<and>
   ambient12 0 = 1 \<and>
   sampled_z (1 / 20) ambient12 = Some 1 \<and>
   fst (compute_bootstrap_ci boot3 (1 / 20) ''se'' ambient12) =
     Inr [((''A1'', ''B1''),
           \<lparr>estimate = Some 1, se = Some 1, ci_lower = Some 0, ci_upper = Some 2\<rparr>)] \<and>
   ambient12 n_normal_draws = 2 \<and>
   fst (compute_bootstrap_ci boot3 (1 / 20) ''se'' (\<lambda>k. 1)) =
     Inr [((''A1'', ''B1''),
           \<lparr>estimate = Some 1, se = Some 1, ci_lower = Some 0, ci_upper = Some 2\<rparr>)]"
proof -
  have a: "(0::real) \<le> 1 / 20" "(1::real) / 20 \<le> 2" by simp_all
  note t = bootstrap_ci_se_sampled [OF not_empty_boot3 a, of ambient12]
  have "\<forall>c. (\<forall>k < n_normal_draws. ambient12 k = c) \<longrightarrow> sampled_z (1 / 20) ambient12 = Some \<bar>c\<bar>"
    using t by (elim conjE; assumption?)
  then have z: "sampled_z (1 / 20) ambient12 = Some 1" using ambient12_first by fastforce
  have "compute_bootstrap_ci boot3 (1 / 20) ''se'' ambient12 =
     (Inr (map (\<lambda>kr. (fst kr,
               \<lparr>estimate = nanmean (snd kr), se = nanstd (snd kr),
                ci_lower = fsub (nanmean (snd kr)) (fmul (sampled_z (1 / 20) ambient12) (nanstd (snd kr))),
                ci_upper = fadd (nanmean (snd kr)) (fmul (sampled_z (1 / 20) ambient12) (nanstd (snd kr)))\<rparr>))
             boot3),
      (\<lambda>k. ambient12 (k + n_normal_draws)))"
    using t by (elim conjE; assumption?)
  then have r: "fst (compute_bootstrap_ci boot3 (1 / 20) ''se'' ambient12) =
     Inr [((''A1'', ''B1''),
           \<lparr>estimate = Some 1, se = Some 1, ci_lower = Some 0, ci_upper = Some 2\<rparr>)]"
    unfolding z by (simp add: boot3_def stats_boot3 fsub_def fadd_def fmul_def)
  have f: "ambient12 0 = 1" using ambient12_first draws_pos by blast
  have g: "ambient12 n_normal_draws = 2" by (simp add: ambient12_def)
  have same: "\<forall>st'. (\<forall>k < n_normal_draws. st' k = ambient12 k) \<longrightarrow>
       fst (compute_bootstrap_ci boot3 (1 / 20) ''se'' st') =
       fst (compute_bootstrap_ci boot3 (1 / 20) ''se'' ambient12)"
    by (rule t [THEN conjunct2, THEN conjunct2, THEN conjunct2])
  have one: "\<forall>k < n_normal_draws. (\<lambda>k. 1) k = ambient12 k"
    using ambient12_first by simp
  have "fst (compute_bootstrap_ci boot3 (1 / 20) ''se'' (\<lambda>k. 1)) =
       fst (compute_bootstrap_ci boot3 (1 / 20) ''se'' ambient12)"
    by (rule same [THEN spec, THEN mp, OF one])
  then have r': "fst (compute_bootstrap_ci boot3 (1 / 20) ''se'' (\<lambda>k. 1)) =
     Inr [((''A1'', ''B1''),
           \<lparr>estimate = Some 1, se = Some 1, ci_lower = Some 0, ci_upper = Some 2\<rparr>)]"
    using r by simp
  show ?thesis using not_empty_boot3 a f z r g r' by (intro conjI)
qed

end
